theory Spec2Isabelle
  imports Main
begin

section \<open>Values, strings and dictionaries\<close>

text \<open>
  The scraper passes product records around as Python dictionaries from field names to
  values that are either \<^verbatim>\<open>None\<close> or a \<^verbatim>\<open>str\<close>. A \<^typ>\<open>string\<close> is a list of
  characters; a \<^typ>\<open>char\<close> stands for one code point below 256, so \<^term>\<open>length\<close> is
  Python's \<^verbatim>\<open>len\<close> on such strings.
\<close>

datatype pyval = PyNone | PyStr string

text \<open>Python's truth value of an optional string: \<^verbatim>\<open>None\<close> and \<^verbatim>\<open>""\<close> are falsy.\<close>

fun truthy :: "pyval \<Rightarrow> bool" where
  "truthy PyNone = False"
| "truthy (PyStr s) = (s \<noteq> [])"

text \<open>
  \<^verbatim>\<open>len(v)\<close>. It is only ever evaluated behind a truth test of the same value
  (\<^verbatim>\<open>v and len(v) > 10\<close>), so the value given to \<^verbatim>\<open>None\<close> is never consulted.
\<close>

fun py_len :: "pyval \<Rightarrow> nat" where
  "py_len PyNone = 0"
| "py_len (PyStr s) = length s"

type_synonym item = "string \<rightharpoonup> pyval"

text \<open>\<^verbatim>\<open>d.get(k)\<close> and \<^verbatim>\<open>d.get(k, default)\<close>.\<close>

definition dict_get :: "item \<Rightarrow> string \<Rightarrow> pyval" where
  "dict_get d k = (case d k of None \<Rightarrow> PyNone | Some v \<Rightarrow> v)"

definition dict_get_default :: "item \<Rightarrow> string \<Rightarrow> pyval \<Rightarrow> pyval" where
  "dict_get_default d k dflt = (case d k of None \<Rightarrow> dflt | Some v \<Rightarrow> v)"

text \<open>
  Whitespace as \<^verbatim>\<open>str.split()\<close>, \<^verbatim>\<open>str.strip()\<close> and the pattern \<^verbatim>\<open>\s\<close> see it:
  tab to carriage return, the four separators 28 to 31, the space, NEL and the
  no-break space. Decimal digits as the pattern \<^verbatim>\<open>\d\<close> sees them.
\<close>

definition is_space :: "char \<Rightarrow> bool" where
  "is_space c = (let n = (of_char c :: nat) in
     (9 \<le> n \<and> n \<le> 13) \<or> (28 \<le> n \<and> n \<le> 32) \<or> n = 133 \<or> n = 160)"

definition is_digit :: "char \<Rightarrow> bool" where
  "is_digit c = (let n = (of_char c :: nat) in 48 \<le> n \<and> n \<le> 57)"

text \<open>\<^verbatim>\<open>s.split()\<close>: the maximal runs of non-whitespace characters, in order.\<close>

function split_ws :: "string \<Rightarrow> string list" where
  "split_ws [] = []"
| "split_ws (c # cs) =
     (if is_space c then split_ws cs
      else (c # takeWhile (\<lambda>x. \<not> is_space x) cs)
             # split_ws (dropWhile (\<lambda>x. \<not> is_space x) cs))"
  by pat_completeness auto
termination
  by (relation "measure length") (auto simp: less_Suc_eq_le length_dropWhile_le)

text \<open>\<^verbatim>\<open>sep.join(ws)\<close> and \<^verbatim>\<open>s.strip()\<close>.\<close>

fun str_join :: "string \<Rightarrow> string list \<Rightarrow> string" where
  "str_join sep [] = []"
| "str_join sep [w] = w"
| "str_join sep (w # v # ws) = w @ sep @ str_join sep (v # ws)"

definition strip :: "string \<Rightarrow> string" where
  "strip s = rev (dropWhile is_space (rev (dropWhile is_space s)))"

text \<open>\<^verbatim>\<open>s.startswith(p)\<close> and \<^verbatim>\<open>sub in s\<close>.\<close>

fun starts_with :: "string \<Rightarrow> string \<Rightarrow> bool" where
  "starts_with s [] = True"
| "starts_with [] (p # ps) = False"
| "starts_with (c # cs) (p # ps) = (c = p \<and> starts_with cs ps)"

fun str_contains :: "string \<Rightarrow> string \<Rightarrow> bool" where
  "str_contains [] sub = (sub = [])"
| "str_contains (c # cs) sub = (starts_with (c # cs) sub \<or> str_contains cs sub)"

section \<open>Normalizers\<close>

fun clean_text :: "pyval \<Rightarrow> string" where
  "clean_text PyNone = []"
| "clean_text (PyStr s) = (if s = [] then [] else strip (str_join '' '' (split_ws s)))"

text \<open>
  \<^verbatim>\<open>re.search(r"#?(\d+)", rank_text)\<close>. \<open>rank_match_here\<close> is the match attempt at
  the start of its argument, returning group 1: the optional \<^verbatim>\<open>#\<close> is tried first
  and given up when no digit follows it; the digits are taken greedily.
  \<open>rank_search\<close> tries every start position from the left.
\<close>

definition rank_match_here :: "string \<Rightarrow> string option" where
  "rank_match_here s =
     (case s of
        [] \<Rightarrow> None
      | c # cs \<Rightarrow>
          if c = CHR ''#'' \<and> takeWhile is_digit cs \<noteq> [] then Some (takeWhile is_digit cs)
          else if takeWhile is_digit (c # cs) \<noteq> [] then Some (takeWhile is_digit (c # cs))
          else None)"

fun rank_search :: "string \<Rightarrow> string option" where
  "rank_search [] = None"
| "rank_search (c # cs) =
     (case rank_match_here (c # cs) of Some g \<Rightarrow> Some g | None \<Rightarrow> rank_search cs)"

fun clean_rank :: "pyval \<Rightarrow> string" where
  "clean_rank PyNone = []"
| "clean_rank (PyStr s) =
     (if s = [] then []
      else case rank_search s of Some g \<Rightarrow> ''#'' @ g | None \<Rightarrow> [])"

fun clean_product_name :: "pyval \<Rightarrow> string" where
  "clean_product_name PyNone = []"
| "clean_product_name (PyStr s) =
     (if s = [] then []
      else let cleaned = clean_text (PyStr s)
           in if length cleaned > 500 then take 500 cleaned else cleaned)"

fun validate_product_link :: "pyval \<Rightarrow> string" where
  "validate_product_link PyNone = []"
| "validate_product_link (PyStr s) =
     (if s = [] \<or> \<not> str_contains s ''/dp/'' then [] else s)"

fun clean_rating :: "pyval \<Rightarrow> string" where
  "clean_rating PyNone = []"
| "clean_rating (PyStr s) = (if s = [] then [] else take 100 (clean_text (PyStr s)))"

fun clean_price :: "pyval \<Rightarrow> string" where
  "clean_price PyNone = []"
| "clean_price (PyStr s) = (if s = [] then [] else clean_text (PyStr s))"

section \<open>Validation and deduplication\<close>

text \<open>The dictionary literal that \<open>validate_and_clean_items\<close> builds for one record.\<close>

definition validated_item :: "item \<Rightarrow> item" where
  "validated_item item =
     [''rank'' \<mapsto> PyStr (clean_rank (dict_get_default item ''rank'' (PyStr ''''))),
      ''name'' \<mapsto> PyStr (clean_product_name (dict_get_default item ''name'' (PyStr ''''))),
      ''link'' \<mapsto> PyStr (validate_product_link (dict_get_default item ''link'' (PyStr ''''))),
      ''rating'' \<mapsto> PyStr (clean_rating (dict_get_default item ''rating'' (PyStr ''''))),
      ''price'' \<mapsto> PyStr (clean_price (dict_get_default item ''price'' (PyStr '''')))]"

text \<open>The first loop: skip records without essential data, clean, keep the meaningful ones.\<close>

fun validated_items :: "item list \<Rightarrow> item list" where
  "validated_items [] = []"
| "validated_items (item # items) =
     (if \<not> truthy (dict_get item ''name'') \<or> \<not> truthy (dict_get item ''link'')
      then validated_items items
      else let v = validated_item item
           in if truthy (dict_get v ''name'') \<and> truthy (dict_get v ''link'')
                 \<and> py_len (dict_get v ''name'') > 10
              then v # validated_items items
              else validated_items items)"

text \<open>
  The second loop: first occurrence of each link wins. The subscript \<^verbatim>\<open>item["link"]\<close>
  is read with \<open>dict_get\<close>: every record that reaches this loop was built by
  \<open>validated_item\<close> and has the key.
\<close>

fun unique_by_link :: "pyval set \<Rightarrow> item list \<Rightarrow> item list" where
  "unique_by_link seen_links [] = []"
| "unique_by_link seen_links (item # items) =
     (if dict_get item ''link'' \<notin> seen_links
      then item # unique_by_link (insert (dict_get item ''link'') seen_links) items
      else unique_by_link seen_links items)"

definition validate_and_clean_items :: "item list \<Rightarrow> item list" where
  "validate_and_clean_items items = unique_by_link {} (validated_items items)"

text \<open>
  \<open>deduplicate_products\<close>: the loop carries the two sets of seen keys. The key string
  itself is only tested for being set, so the model keeps the two branches that set it.
  The emitted record is the input without its \<^verbatim>\<open>asin\<close> entry.
\<close>

fun dedup_loop :: "pyval set \<Rightarrow> pyval set \<Rightarrow> item list \<Rightarrow> item list" where
  "dedup_loop seen_links seen_asins [] = []"
| "dedup_loop seen_links seen_asins (item # items) =
     (let link = dict_get_default item ''link'' (PyStr '''');
          asin = dict_get_default item ''asin'' (PyStr '''')
      in if truthy asin \<and> asin \<notin> seen_asins
         then item(''asin'' := None) # dedup_loop seen_links (insert asin seen_asins) items
         else if truthy link \<and> link \<notin> seen_links
         then item(''asin'' := None) # dedup_loop (insert link seen_links) seen_asins items
         else dedup_loop seen_links seen_asins items)"

definition deduplicate_products :: "item list \<Rightarrow> item list" where
  "deduplicate_products items = dedup_loop {} {} items"

section \<open>The page handle\<close>

text \<open>
  The browser page is outside the program. Its operations are parameters of the model: a
  world of some type \<open>'w\<close> answers each operation with a value or with an exception and
  moves to a new world. An exception is any instance of \<^verbatim>\<open>Exception\<close>, as the browser
  library raises them, with the text \<^verbatim>\<open>str(e)\<close>. Locators are descriptions of elements
  that are only resolved when an operation is performed on them. Console output is not
  modelled.
\<close>

datatype exn = Exception string

fun str_of_exn :: "exn \<Rightarrow> string" where
  "str_of_exn (Exception msg) = msg"

datatype locator =
    Locator string
  | ByText string
  | Within locator string
  | Nth locator nat
  | First locator

text \<open>
  The operations that return nothing (navigation, waits, script evaluation, clicks; the
  trailing number is the timeout in milliseconds), and all operations as they are logged.
\<close>

datatype action =
    Goto string string nat
  | Reload string nat
  | WaitForTimeout nat
  | WaitForLoadState string nat
  | Evaluate string
  | Click locator nat

datatype call =
    Act action
  | Count locator
  | InnerText locator
  | GetAttribute locator string

record 'w page_api =
  run_action :: "action \<Rightarrow> 'w \<Rightarrow> (exn + unit) \<times> 'w"
  run_count :: "locator \<Rightarrow> 'w \<Rightarrow> (exn + nat) \<times> 'w"
  run_inner_text :: "locator \<Rightarrow> 'w \<Rightarrow> (exn + string) \<times> 'w"
  run_get_attribute :: "locator \<Rightarrow> string \<Rightarrow> 'w \<Rightarrow> (exn + pyval) \<times> 'w"
  current_url :: "'w \<Rightarrow> string"
  urljoin :: "string \<Rightarrow> string \<Rightarrow> string"

text \<open>
  A computation runs on the world together with the log of the operations performed so
  far, and ends with an exception or a value.
\<close>

type_synonym 'w run = "'w \<times> call list"

type_synonym ('a, 'w) io = "'w run \<Rightarrow> (exn + 'a) \<times> 'w run"

definition return_io :: "'a \<Rightarrow> ('a, 'w) io" where
  "return_io x = (\<lambda>s. (Inr x, s))"

definition bind_io :: "('a, 'w) io \<Rightarrow> ('a \<Rightarrow> ('b, 'w) io) \<Rightarrow> ('b, 'w) io" where
  "bind_io m f = (\<lambda>s. case m s of (Inl e, s') \<Rightarrow> (Inl e, s') | (Inr x, s') \<Rightarrow> f x s')"

text \<open>\<^verbatim>\<open>try: m except Exception as e: h(e)\<close>\<close>

definition try_except :: "('a, 'w) io \<Rightarrow> (exn \<Rightarrow> ('a, 'w) io) \<Rightarrow> ('a, 'w) io" where
  "try_except m h = (\<lambda>s. case m s of (Inl e, s') \<Rightarrow> h e s' | (Inr x, s') \<Rightarrow> (Inr x, s'))"

definition perform :: "call \<Rightarrow> ('w \<Rightarrow> (exn + 'a) \<times> 'w) \<Rightarrow> ('a, 'w) io" where
  "perform c f = (\<lambda>(w, log). case f w of (r, w') \<Rightarrow> (r, (w', log @ [c])))"

definition page_action :: "'w page_api \<Rightarrow> action \<Rightarrow> (unit, 'w) io" where
  "page_action api a = perform (Act a) (run_action api a)"

definition loc_count :: "'w page_api \<Rightarrow> locator \<Rightarrow> (nat, 'w) io" where
  "loc_count api l = perform (Count l) (run_count api l)"

definition inner_text :: "'w page_api \<Rightarrow> locator \<Rightarrow> (string, 'w) io" where
  "inner_text api l = perform (InnerText l) (run_inner_text api l)"

definition get_attribute :: "'w page_api \<Rightarrow> locator \<Rightarrow> string \<Rightarrow> (pyval, 'w) io" where
  "get_attribute api l a = perform (GetAttribute l a) (run_get_attribute api l a)"

text \<open>\<^verbatim>\<open>page.url\<close> is a property read: it cannot fail and is not logged.\<close>

definition page_url :: "'w page_api \<Rightarrow> (string, 'w) io" where
  "page_url api = (\<lambda>(w, log). (Inr (current_url api w), (w, log)))"

definition BASE_URL :: string where
  "BASE_URL = ''https://www.amazon.in''"

definition asin_selector :: string where
  \<open>asin_selector = ''[data-asin]:not([data-asin=""])''\<close>

definition product_link_selector :: string where
  \<open>product_link_selector = ''a.a-link-normal[href*="/dp/"]''\<close>

definition rank_badge_selector :: string where
  "rank_badge_selector = ''.zg-bdg-text''"

definition rating_link_selector :: string where
  \<open>rating_link_selector = ''a[aria-label*="out of 5"]''\<close>

definition price_selector :: string where
  "price_selector = ''span._cDEzb_p13n-sc-price_3mJ9Z''"

section \<open>Scrolling\<close>

definition scroll_script :: string where
  "scroll_script = ''window.scrollTo(0, document.body.scrollHeight)''"

text \<open>
  The \<^verbatim>\<open>for scroll_num in range(max_scrolls)\<close> loop of \<open>scroll_to_bottom_enhanced\<close>:
  the third argument counts the iterations that remain, the fourth is \<open>scroll_num\<close>.
\<close>

fun scroll_loop :: "'w page_api \<Rightarrow> nat \<Rightarrow> nat \<Rightarrow> nat \<Rightarrow> nat \<Rightarrow> nat \<Rightarrow> (unit, 'w) io" where
  "scroll_loop api pause_ms 0 scroll_num last_asin_count stable_iterations = return_io ()"
| "scroll_loop api pause_ms (Suc remaining) scroll_num last_asin_count stable_iterations =
     bind_io (page_action api (Evaluate scroll_script)) (\<lambda>_.
     bind_io (page_action api (WaitForTimeout pause_ms)) (\<lambda>_.
     bind_io (loc_count api (Locator asin_selector)) (\<lambda>current_asin_count.
       let last' = (if current_asin_count > last_asin_count
                    then current_asin_count else last_asin_count);
           stable' = (if current_asin_count > last_asin_count
                      then 0 else stable_iterations + 1)
       in if stable' \<ge> 2 \<and> current_asin_count \<ge> 20 then return_io ()
          else bind_io (if current_asin_count < 10 \<and> scroll_num \<ge> 3
                        then page_action api (WaitForTimeout 2000) else return_io ())
                 (\<lambda>_. scroll_loop api pause_ms remaining (Suc scroll_num) last' stable'))))"

definition scroll_to_bottom_enhanced :: "'w page_api \<Rightarrow> nat \<Rightarrow> nat \<Rightarrow> (nat, 'w) io" where
  "scroll_to_bottom_enhanced api max_scrolls pause_ms =
     bind_io (try_except (page_action api (WaitForLoadState ''networkidle'' 8000))
                (\<lambda>e. page_action api (WaitForLoadState ''domcontentloaded'' 15000))) (\<lambda>_.
     bind_io (scroll_loop api pause_ms max_scrolls 0 0 0) (\<lambda>_.
     loc_count api (Locator asin_selector)))"

section \<open>Extraction\<close>

text \<open>
  \<^verbatim>\<open>re.search(r"^\d+\.?\d*\s*out\s*of\s*5", s)\<close> finds a match. Backtracking
  cannot change the outcome: a digit given back by the first \<^verbatim>\<open>\d+\<close> is taken by
  \<^verbatim>\<open>\d*\<close>, and every other quantifier is followed by a character it cannot match.
\<close>

definition rating_phrase :: "string \<Rightarrow> bool" where
  "rating_phrase s =
     (let r1 = dropWhile is_digit s;
          r2 = (case r1 of [] \<Rightarrow> r1 | c # cs \<Rightarrow> if c = CHR ''.'' then cs else r1);
          r3 = dropWhile is_space (dropWhile is_digit r2);
          r4 = dropWhile is_space (drop 3 r3);
          r5 = dropWhile is_space (drop 2 r4)
      in takeWhile is_digit s \<noteq> [] \<and> starts_with r3 ''out'' \<and> starts_with r4 ''of''
         \<and> starts_with r5 ''5'')"

text \<open>\<^verbatim>\<open>s.lower()\<close> on code points below 256.\<close>

definition lower_char :: "char \<Rightarrow> char" where
  "lower_char c = (let n = (of_char c :: nat) in
     if (65 \<le> n \<and> n \<le> 90) \<or> (192 \<le> n \<and> n \<le> 214) \<or> (216 \<le> n \<and> n \<le> 222)
     then char_of (n + 32) else c)"

definition str_lower :: "string \<Rightarrow> string" where
  "str_lower s = map lower_char s"

text \<open>
  The inner loop of \<open>extract_from_asin_containers_universal\<close> over the link elements of
  one container; it stops at the first link that looks like a product name.
\<close>

fun find_name_link :: "'w page_api \<Rightarrow> locator \<Rightarrow> nat \<Rightarrow> nat \<Rightarrow> (string \<times> string, 'w) io" where
  "find_name_link api link_elements 0 j = return_io ([], [])"
| "find_name_link api link_elements (Suc remaining) j =
     bind_io (inner_text api (Nth link_elements j)) (\<lambda>text.
     bind_io (get_attribute api (Nth link_elements j) ''href'') (\<lambda>href.
       let potential_name = clean_text (PyStr text)
       in case href of
            PyNone \<Rightarrow> find_name_link api link_elements remaining (Suc j)
          | PyStr h \<Rightarrow>
              if potential_name \<noteq> [] \<and> length potential_name > 15 \<and> h \<noteq> []
                 \<and> \<not> rating_phrase potential_name
                 \<and> \<not> str_contains (str_lower potential_name) ''star''
              then return_io (potential_name, urljoin api BASE_URL h)
              else find_name_link api link_elements remaining (Suc j)))"

text \<open>
  \<^verbatim>\<open>elem = ...first; if elem.count() > 0: x = clean_text(elem.inner_text())\<close>, and the
  same with \<^verbatim>\<open>get_attribute\<close>; the value stays \<^verbatim>\<open>""\<close> otherwise.
\<close>

definition text_if_present :: "'w page_api \<Rightarrow> locator \<Rightarrow> (string, 'w) io" where
  "text_if_present api elem =
     bind_io (loc_count api elem) (\<lambda>n.
       if n > 0 then bind_io (inner_text api elem) (\<lambda>t. return_io (clean_text (PyStr t)))
       else return_io [])"

definition attribute_if_present :: "'w page_api \<Rightarrow> locator \<Rightarrow> string \<Rightarrow> (string, 'w) io" where
  "attribute_if_present api elem a =
     bind_io (loc_count api elem) (\<lambda>n.
       if n > 0 then bind_io (get_attribute api elem a) (\<lambda>v. return_io (clean_text v))
       else return_io [])"

text \<open>The body of the loop over the containers: the record to append, if any.\<close>

definition container_item :: "'w page_api \<Rightarrow> locator \<Rightarrow> (item option, 'w) io" where
  "container_item api container =
     bind_io (get_attribute api container ''data-asin'') (\<lambda>asin.
     bind_io (loc_count api (Within container product_link_selector)) (\<lambda>n.
     bind_io (if n > 0
              then bind_io (loc_count api (Within container product_link_selector)) (\<lambda>m.
                     find_name_link api (Within container product_link_selector) m 0)
              else return_io ([], [])) (\<lambda>(name, link).
     bind_io (text_if_present api (First (Within container rank_badge_selector))) (\<lambda>rank.
     bind_io (attribute_if_present api (First (Within container rating_link_selector))
                ''aria-label'') (\<lambda>rating.
     bind_io (text_if_present api (First (Within container price_selector))) (\<lambda>price.
       return_io
         (if name \<noteq> [] \<and> link \<noteq> [] \<and> length name > 15
          then Some [''rank'' \<mapsto> PyStr rank, ''name'' \<mapsto> PyStr name, ''link'' \<mapsto> PyStr link,
                     ''rating'' \<mapsto> PyStr rating, ''price'' \<mapsto> PyStr price, ''asin'' \<mapsto> asin]
          else None)))))))"

text \<open>A failure inside one container is caught and the loop goes on with the next.\<close>

fun asin_containers_loop ::
  "'w page_api \<Rightarrow> locator \<Rightarrow> nat \<Rightarrow> nat \<Rightarrow> item list \<Rightarrow> (item list, 'w) io" where
  "asin_containers_loop api asin_containers 0 i items = return_io items"
| "asin_containers_loop api asin_containers (Suc remaining) i items =
     bind_io (try_except
                (bind_io (container_item api (Nth asin_containers i)) (\<lambda>r.
                   return_io (case r of None \<Rightarrow> items | Some it \<Rightarrow> items @ [it])))
                (\<lambda>e. return_io items)) (\<lambda>items'.
     asin_containers_loop api asin_containers remaining (Suc i) items')"

definition extract_from_asin_containers_universal ::
  "'w page_api \<Rightarrow> locator \<Rightarrow> (item list, 'w) io" where
  "extract_from_asin_containers_universal api asin_containers =
     bind_io (loc_count api asin_containers) (\<lambda>container_count.
     asin_containers_loop api asin_containers (min container_count 100) 0 [])"

text \<open>
  The two loops of \<open>extract_using_universal_selectors\<close>: the filter over all product
  links, which keeps name and absolute link, and the positional correlation.
\<close>

fun valid_links_loop ::
  "'w page_api \<Rightarrow> locator \<Rightarrow> nat \<Rightarrow> nat \<Rightarrow> (string \<times> string) list
     \<Rightarrow> ((string \<times> string) list, 'w) io" where
  "valid_links_loop api product_links 0 i valid = return_io valid"
| "valid_links_loop api product_links (Suc remaining) i valid =
     bind_io (try_except
                (bind_io (inner_text api (Nth product_links i)) (\<lambda>t.
                 bind_io (get_attribute api (Nth product_links i) ''href'') (\<lambda>href.
                   let text = clean_text (PyStr t)
                   in return_io
                        (case href of
                           PyNone \<Rightarrow> valid
                         | PyStr h \<Rightarrow>
                             if text \<noteq> [] \<and> length text > 15 \<and> h \<noteq> []
                                \<and> str_contains h ''/dp/'' \<and> \<not> rating_phrase text
                                \<and> \<not> str_contains (str_lower text) ''star''
                             then valid @ [(text, urljoin api BASE_URL h)]
                             else valid))))
                (\<lambda>e. return_io valid)) (\<lambda>valid'.
     valid_links_loop api product_links remaining (Suc i) valid')"

definition text_at :: "'w page_api \<Rightarrow> locator \<Rightarrow> nat \<Rightarrow> (string, 'w) io" where
  "text_at api elems idx =
     bind_io (loc_count api elems) (\<lambda>n.
       if n > idx
       then bind_io (inner_text api (Nth elems idx)) (\<lambda>t. return_io (clean_text (PyStr t)))
       else return_io [])"

definition attribute_at :: "'w page_api \<Rightarrow> locator \<Rightarrow> nat \<Rightarrow> string \<Rightarrow> (string, 'w) io" where
  "attribute_at api elems idx a =
     bind_io (loc_count api elems) (\<lambda>n.
       if n > idx
       then bind_io (get_attribute api (Nth elems idx) a) (\<lambda>v. return_io (clean_text v))
       else return_io [])"

fun correlate_loop ::
  "'w page_api \<Rightarrow> nat \<Rightarrow> (string \<times> string) list \<Rightarrow> item list \<Rightarrow> (item list, 'w) io" where
  "correlate_loop api idx [] items = return_io items"
| "correlate_loop api idx ((name, link) # rest) items =
     bind_io (try_except
                (bind_io (text_at api (Locator rank_badge_selector) idx) (\<lambda>rank.
                 bind_io (text_at api (Locator price_selector) idx) (\<lambda>price.
                 bind_io (attribute_at api (Locator rating_link_selector) idx ''aria-label'')
                   (\<lambda>rating.
                   return_io (items @ [[''rank'' \<mapsto> PyStr rank, ''name'' \<mapsto> PyStr name,
                                        ''link'' \<mapsto> PyStr link, ''rating'' \<mapsto> PyStr rating,
                                        ''price'' \<mapsto> PyStr price]])))))
                (\<lambda>e. return_io items)) (\<lambda>items'.
     correlate_loop api (Suc idx) rest items')"

definition extract_using_universal_selectors :: "'w page_api \<Rightarrow> (item list, 'w) io" where
  "extract_using_universal_selectors api =
     bind_io (loc_count api (Locator product_link_selector)) (\<lambda>link_count.
     bind_io (valid_links_loop api (Locator product_link_selector) link_count 0 [])
       (\<lambda>valid_product_links.
     correlate_loop api 0 (take 50 valid_product_links) []))"

text \<open>
  \<open>extract_products_on_page\<close> in its three blocks: the scroll with method 1 (the
  container extraction), method 2 (the fallback and the choice between the two results),
  and the final validation.
\<close>

definition asin_method :: "'w page_api \<Rightarrow> (item list, 'w) io" where
  "asin_method api =
     bind_io (scroll_to_bottom_enhanced api 8 2000) (\<lambda>final_container_count.
     bind_io (loc_count api (Locator asin_selector)) (\<lambda>container_count.
       if container_count \<ge> 10
       then extract_from_asin_containers_universal api (Locator asin_selector)
       else return_io []))"

definition universal_fallback :: "'w page_api \<Rightarrow> item list \<Rightarrow> (item list, 'w) io" where
  "universal_fallback api items =
     (if length items < 15
      then bind_io (extract_using_universal_selectors api) (\<lambda>fallback_items.
             return_io (if length fallback_items > length items then fallback_items else items))
      else return_io items)"

definition extract_products_on_page :: "'w page_api \<Rightarrow> (item list, 'w) io" where
  "extract_products_on_page api =
     bind_io (asin_method api) (\<lambda>items.
     bind_io (universal_fallback api items) (\<lambda>items'.
     return_io (validate_and_clean_items items')))"

section \<open>Navigation to the next page\<close>

text \<open>\<^verbatim>\<open>s.replace(old, new)\<close> for a non-empty \<open>old\<close>, which is all the program uses.\<close>

function str_replace :: "string \<Rightarrow> char \<Rightarrow> string \<Rightarrow> string \<Rightarrow> string" where
  "str_replace [] o1 os new = []"
| "str_replace (c # cs) o1 os new =
     (if starts_with (c # cs) (o1 # os)
      then new @ str_replace (drop (length os) cs) o1 os new
      else c # str_replace cs o1 os new)"
  by pat_completeness auto
termination
  by (relation "measure (\<lambda>(s, o1, os, new). length s)") auto

definition navigate_by_url_modification :: "'w page_api \<Rightarrow> (unit, 'w) io" where
  "navigate_by_url_modification api =
     bind_io (page_url api) (\<lambda>current_url.
       let separator = (if str_contains current_url ''?'' then ''&'' else ''?'');
           replaced = str_replace current_url CHR ''p'' ''g=1'' ''pg=2'';
           new_url = (if str_contains current_url ''pg=''
                      then (if replaced = current_url
                            then current_url @ separator @ ''pg=2'' else replaced)
                      else current_url @ separator @ ''pg=2'')
       in page_action api (Goto new_url ''domcontentloaded'' 15000))"

definition navigation_strategies :: "'w page_api \<Rightarrow> (unit, 'w) io list" where
  \<open>navigation_strategies api =
     [page_action api (Click (ByText ''Next page'') 5000),
      page_action api (Click (First (Locator ''a[href*="pg=2"]'')) 5000),
      page_action api (Click (First (Locator ''a[href*="pg="]:has-text("Next")'')) 5000),
      page_action api (Click (First (Locator ''a[href*="pg="] .a-icon-next'')) 5000),
      navigate_by_url_modification api]\<close>

text \<open>
  One round of the loop over the strategies: the result says whether the round returned
  \<^verbatim>\<open>True\<close>; a failure anywhere in the round moves on to the next strategy.
\<close>

definition attempt_navigation :: "'w page_api \<Rightarrow> (unit, 'w) io \<Rightarrow> (bool, 'w) io" where
  "attempt_navigation api strategy =
     try_except
       (bind_io strategy (\<lambda>_.
        bind_io (page_action api (WaitForLoadState ''domcontentloaded'' 10000)) (\<lambda>_.
        bind_io (page_url api) (\<lambda>current_url.
          if str_contains current_url ''pg=2'' \<or> str_contains current_url ''page=2''
          then return_io True
          else bind_io (page_action api (WaitForTimeout 2000)) (\<lambda>_.
               bind_io (loc_count api (Locator asin_selector)) (\<lambda>new_containers.
               return_io (new_containers \<ge> 10)))))))
       (\<lambda>e. return_io False)"

fun try_strategies :: "'w page_api \<Rightarrow> (unit, 'w) io list \<Rightarrow> (bool, 'w) io" where
  "try_strategies api [] = return_io False"
| "try_strategies api (strategy # rest) =
     bind_io (attempt_navigation api strategy) (\<lambda>ok.
       if ok then return_io True else try_strategies api rest)"

definition navigate_to_next_page :: "'w page_api \<Rightarrow> (bool, 'w) io" where
  "navigate_to_next_page api = try_strategies api (navigation_strategies api)"

section \<open>Category scraping\<close>

text \<open>
  A category as the category list supplies it, with both of its keys. The statistics of a
  result are numbers, except the text under \<^verbatim>\<open>error\<close>.
\<close>

record category =
  category_name :: string
  category_url :: string

datatype stat = StatInt nat | StatStr string

record category_result =
  category_link :: string
  category_items :: "item list"
  extraction_stats :: "string \<rightharpoonup> stat"

text \<open>
  The \<^verbatim>\<open>try\<close> block of \<open>scrape_category\<close> in three parts: loading the category page
  (with the one reload), the extraction of page 1, and the conditional visit of page 2.
\<close>

definition load_category_page :: "'w page_api \<Rightarrow> category \<Rightarrow> (nat, 'w) io" where
  "load_category_page api category =
     bind_io (page_action api (Goto (category_url category) ''domcontentloaded'' 30000)) (\<lambda>_.
     bind_io (page_action api (WaitForTimeout 2000)) (\<lambda>_.
     bind_io (loc_count api (Locator asin_selector)) (\<lambda>initial_asin_count.
       if initial_asin_count < 5
       then bind_io (page_action api (Reload ''domcontentloaded'' 20000)) (\<lambda>_.
            bind_io (page_action api (WaitForTimeout 3000)) (\<lambda>_.
            loc_count api (Locator asin_selector)))
       else return_io initial_asin_count)))"

definition extract_first_page :: "'w page_api \<Rightarrow> category \<Rightarrow> (nat \<times> item list, 'w) io" where
  "extract_first_page api category =
     bind_io (load_category_page api category) (\<lambda>initial_asin_count.
     bind_io (extract_products_on_page api) (\<lambda>first_batch.
     return_io (initial_asin_count, first_batch)))"

definition extract_second_page :: "'w page_api \<Rightarrow> item list \<Rightarrow> (item list, 'w) io" where
  "extract_second_page api first_batch =
     (if length first_batch \<ge> 15
      then bind_io (navigate_to_next_page api) (\<lambda>navigated.
             if navigated
             then bind_io (page_action api (WaitForTimeout 2000)) (\<lambda>_.
                  extract_products_on_page api)
             else return_io [])
      else return_io [])"

text \<open>The result built after both pages, and the one built by the \<^verbatim>\<open>except\<close> branch.\<close>

definition success_result :: "category \<Rightarrow> nat \<Rightarrow> item list \<Rightarrow> item list \<Rightarrow> category_result" where
  "success_result category initial_asin_count first_batch second_batch =
     (let all_items = first_batch @ second_batch;
          unique_items = deduplicate_products all_items;
          final_items = take 100 unique_items
      in \<lparr>category_link = category_url category,
          category_items = final_items,
          extraction_stats =
            [''page1_items'' \<mapsto> StatInt (length first_batch),
             ''page2_items'' \<mapsto> StatInt (length second_batch),
             ''total_before_dedup'' \<mapsto> StatInt (length all_items),
             ''final_unique_items'' \<mapsto> StatInt (length final_items),
             ''initial_asin_count'' \<mapsto> StatInt initial_asin_count]\<rparr>)"

definition failure_result :: "category \<Rightarrow> exn \<Rightarrow> category_result" where
  "failure_result category e =
     \<lparr>category_link = category_url category,
      category_items = [],
      extraction_stats =
        [''error'' \<mapsto> StatStr (str_of_exn e),
         ''page1_items'' \<mapsto> StatInt 0,
         ''page2_items'' \<mapsto> StatInt 0,
         ''total_before_dedup'' \<mapsto> StatInt 0,
         ''final_unique_items'' \<mapsto> StatInt 0]\<rparr>"

definition scrape_category_try :: "'w page_api \<Rightarrow> category \<Rightarrow> (category_result, 'w) io" where
  "scrape_category_try api category =
     bind_io (extract_first_page api category) (\<lambda>(initial_asin_count, first_batch).
     bind_io (extract_second_page api first_batch) (\<lambda>second_batch.
     return_io (success_result category initial_asin_count first_batch second_batch)))"

definition scrape_category :: "'w page_api \<Rightarrow> category \<Rightarrow> (category_result, 'w) io" where
  "scrape_category api category =
     try_except (scrape_category_try api category)
       (\<lambda>e. return_io (failure_result category e))"

section \<open>Auxiliary notions for the statements\<close>

text \<open>A word as \<open>split_ws\<close> produces it: non-empty and free of whitespace.\<close>

definition good_word :: "string \<Rightarrow> bool" where
  "good_word w = (w \<noteq> [] \<and> (\<forall>c \<in> set w. \<not> is_space c))"

text \<open>A string whose last character is the separator that \<open>clean_text\<close> inserts.\<close>

definition ends_with_space :: "string \<Rightarrow> bool" where
  "ends_with_space t = (t \<noteq> [] \<and> last t = CHR '' '')"

text \<open>The keys of a validated record.\<close>

definition item_fields :: "string set" where
  "item_fields = {''rank'', ''name'', ''link'', ''rating'', ''price''}"

subsection \<open>What a computation adds to the log\<close>

text \<open>
  Every computation only appends to the log. \<open>emits P m\<close>: all calls that \<open>m\<close>
  appends satisfy \<open>P\<close>. \<open>opens_then c P m\<close>: the first call that \<open>m\<close> appends is
  \<open>c\<close>, and the later ones satisfy \<open>P\<close>. \<open>at_most_scrolls n m\<close>: \<open>m\<close> appends at
  most \<open>n\<close> scroll calls.
\<close>

definition emits :: "(call \<Rightarrow> bool) \<Rightarrow> ('a, 'w) io \<Rightarrow> bool" where
  "emits P m = (\<forall>s. \<exists>new. snd (snd (m s)) = snd s @ new \<and> list_all P new)"

definition opens_then :: "call \<Rightarrow> (call \<Rightarrow> bool) \<Rightarrow> ('a, 'w) io \<Rightarrow> bool" where
  "opens_then c P m = (\<forall>s. \<exists>rest. snd (snd (m s)) = snd s @ c # rest \<and> list_all P rest)"

definition is_scroll :: "call \<Rightarrow> bool" where
  "is_scroll c = (c = Act (Evaluate scroll_script))"

definition at_most_scrolls :: "nat \<Rightarrow> ('a, 'w) io \<Rightarrow> bool" where
  "at_most_scrolls n m =
     (\<forall>s. \<exists>new. snd (snd (m s)) = snd s @ new \<and> length (filter is_scroll new) \<le> n)"

text \<open>
  Classes of calls: any call; a call other than the one the fallback extractor opens with
  (the count of all product links of the page); a call that is not a navigation (a click
  or a \<^verbatim>\<open>goto\<close>). \<open>quiet P\<close> says that \<open>P\<close> contains every query except that
  count, and every wait, scroll and reload.
\<close>

definition anything :: "call \<Rightarrow> bool" where
  "anything c = True"

definition before_fallback :: "call \<Rightarrow> bool" where
  "before_fallback c = (c \<noteq> Count (Locator product_link_selector))"

fun navigation_call :: "call \<Rightarrow> bool" where
  "navigation_call (Act (Click l t)) = True"
| "navigation_call (Act (Goto u k t)) = True"
| "navigation_call c = False"

definition not_navigation :: "call \<Rightarrow> bool" where
  "not_navigation c = (\<not> navigation_call c)"

definition quiet :: "(call \<Rightarrow> bool) \<Rightarrow> bool" where
  "quiet P = ((\<forall>l. P (InnerText l)) \<and> (\<forall>l a. P (GetAttribute l a))
     \<and> (\<forall>l. l \<noteq> Locator product_link_selector \<longrightarrow> P (Count l))
     \<and> (\<forall>t. P (Act (WaitForTimeout t))) \<and> (\<forall>k t. P (Act (WaitForLoadState k t)))
     \<and> (\<forall>j. P (Act (Evaluate j))) \<and> (\<forall>k t. P (Act (Reload k t))))"

subsection \<open>The convergence detector as the specification words it\<close>

text \<open>
  The specification describes the loop of \<open>scroll_to_bottom_enhanced\<close> by the counts it
  measures, the latest first here: a measurement shows no increase when it does not
  exceed the largest count measured before it (0 before the first measurement), and the
  page has converged when the two latest measurements both show no increase and the
  latest count is at least 20. \<open>detector_loop\<close> is the loop in these words: scroll, pause,
  measure, stop once converged; from the fourth iteration on, a count below 10 is followed
  by an extra pause of 2000 ms. \<open>stable_run\<close> is the number of latest measurements in a row
  that show no increase.
\<close>

fun largest :: "nat list \<Rightarrow> nat" where
  "largest [] = 0"
| "largest (c # earlier) = max c (largest earlier)"

fun no_increase :: "nat list \<Rightarrow> bool" where
  "no_increase [] = False"
| "no_increase (c # earlier) = (c \<le> largest earlier)"

definition converged :: "nat list \<Rightarrow> bool" where
  "converged measured =
     (no_increase measured \<and> no_increase (tl measured) \<and> 20 \<le> hd measured)"

fun detector_loop :: "'w page_api \<Rightarrow> nat \<Rightarrow> nat \<Rightarrow> nat list \<Rightarrow> (unit, 'w) io" where
  "detector_loop api pause_ms 0 measured = return_io ()"
| "detector_loop api pause_ms (Suc remaining) measured =
     bind_io (page_action api (Evaluate scroll_script)) (\<lambda>_.
     bind_io (page_action api (WaitForTimeout pause_ms)) (\<lambda>_.
     bind_io (loc_count api (Locator asin_selector)) (\<lambda>c.
       if converged (c # measured) then return_io ()
       else bind_io (if c < 10 \<and> 3 \<le> length measured
                     then page_action api (WaitForTimeout 2000) else return_io ())
              (\<lambda>_. detector_loop api pause_ms remaining (c # measured)))))"

fun stable_run :: "nat list \<Rightarrow> nat" where
  "stable_run [] = 0"
| "stable_run (c # earlier) = (if c \<le> largest earlier then Suc (stable_run earlier) else 0)"

subsection \<open>Where an exception comes from\<close>

text \<open>
  \<open>call_raises api c w e w'\<close>: the operation \<open>c\<close>, performed in the world \<open>w\<close>, raises \<open>e\<close>
  and leaves the world \<open>w'\<close>. \<open>scroll_call pause_ms\<close> holds of the operations of
  \<open>scroll_to_bottom_enhanced\<close> that no \<^verbatim>\<open>try\<close> guards: the DOM-ready wait, the scroll,
  the two pauses and the measurement. \<open>raises_last api P m\<close>: \<open>m\<close> only appends to the log,
  and when it ends with an exception, that exception was raised by the last operation it
  performed, which satisfies \<open>P\<close>.
\<close>

fun call_raises :: "'w page_api \<Rightarrow> call \<Rightarrow> 'w \<Rightarrow> exn \<Rightarrow> 'w \<Rightarrow> bool" where
  "call_raises api (Act a) w e w' = (run_action api a w = (Inl e, w'))"
| "call_raises api (Count l) w e w' = (run_count api l w = (Inl e, w'))"
| "call_raises api (InnerText l) w e w' = (run_inner_text api l w = (Inl e, w'))"
| "call_raises api (GetAttribute l a) w e w' = (run_get_attribute api l a w = (Inl e, w'))"

definition scroll_call :: "nat \<Rightarrow> call \<Rightarrow> bool" where
  "scroll_call pause_ms c =
     (c = Act (WaitForLoadState ''domcontentloaded'' 15000)
      \<or> c = Act (Evaluate scroll_script)
      \<or> c = Act (WaitForTimeout pause_ms)
      \<or> c = Act (WaitForTimeout 2000)
      \<or> c = Count (Locator asin_selector))"

definition raises_last :: "'w page_api \<Rightarrow> (call \<Rightarrow> bool) \<Rightarrow> ('a, 'w) io \<Rightarrow> bool" where
  "raises_last api P m =
     (\<forall>s. \<exists>new. snd (snd (m s)) = snd s @ new
        \<and> (\<forall>e. fst (m s) = Inl e \<longrightarrow>
              (\<exists>before c w. new = before @ [c] \<and> P c
                 \<and> call_raises api c w e (fst (snd (m s))))))"

subsection \<open>Sample inputs\<close>

text \<open>
  A raw candidate as the container extractor emits it, with its stable identifier, and
  the same product as a second page lists it, under a link with a different suffix.
\<close>

definition raw1 :: item where
  "raw1 = [''rank'' \<mapsto> PyStr ''#1'', ''name'' \<mapsto> PyStr ''Wireless  Mouse  Pro'',
           ''link'' \<mapsto> PyStr ''https://www.amazon.in/dp/B0A'', ''rating'' \<mapsto> PyStr ''4.5 out of 5 stars'',
           ''price'' \<mapsto> PyStr ''Rs 499'', ''asin'' \<mapsto> PyStr ''B0A'']"

definition raw1_again :: item where
  "raw1_again = raw1(''link'' \<mapsto> PyStr ''https://www.amazon.in/dp/B0A?th=1'')"

text \<open>
  A sample page that never changes: ten containers, of which only the first holds a
  product link; two product links and one rank badge on the whole page; the wait for
  network idle times out. The world carries no state.
\<close>

fun demo_count :: "locator \<Rightarrow> nat" where
  "demo_count (Locator sel) =
     (if sel = asin_selector then 10 else if sel = product_link_selector then 2
      else if sel = rank_badge_selector then 1 else 0)"
| "demo_count (Within (Nth (Locator a) i) sel) =
     (if i = 0 \<and> sel = product_link_selector then 1 else 0)"
| "demo_count (First (Within (Nth (Locator a) i) sel)) =
     (if i = 0 \<and> sel = rank_badge_selector then 1 else 0)"
| "demo_count l = 0"

fun demo_text :: "locator \<Rightarrow> string" where
  "demo_text (Nth (Locator sel) i) =
     (if sel = product_link_selector
      then (if i = 0 then ''Wireless  Mouse Pro 2400 DPI'' else ''Mechanical Keyboard 87 keys'')
      else ''#1'')"
| "demo_text (Nth (Within c sel) j) = ''Wireless Mouse  Pro 2400 DPI''"
| "demo_text l = ''#1''"

fun demo_attribute :: "locator \<Rightarrow> string \<Rightarrow> pyval" where
  "demo_attribute (Nth (Locator sel) i) a =
     (if a = ''href'' then (if i = 0 then PyStr ''/dp/B0A'' else PyStr ''/dp/B0B'')
      else PyStr ''B0A'')"
| "demo_attribute l a = (if a = ''href'' then PyStr ''/dp/B0A'' else PyNone)"

definition demo_api :: "unit page_api" where
  "demo_api =
     \<lparr>run_action = (\<lambda>a w. if a = WaitForLoadState ''networkidle'' 8000
                            then (Inl (Exception ''Timeout 8000ms exceeded.''), w)
                            else (Inr (), w)),
      run_count = (\<lambda>l w. (Inr (demo_count l), w)),
      run_inner_text = (\<lambda>l w. (Inr (demo_text l), w)),
      run_get_attribute = (\<lambda>l a w. (Inr (demo_attribute l a), w)),
      current_url = (\<lambda>w. ''https://www.amazon.in/gp/bestsellers/books''),
      urljoin = (\<lambda>base href. base @ href)\<rparr>"

definition demo_category :: category where
  "demo_category =
     \<lparr>category_name = ''Books'', category_url = ''https://www.amazon.in/gp/bestsellers/books''\<rparr>"

text \<open>What the two extractors find on the sample page.\<close>

definition demo_raw :: item where
  "demo_raw = [''rank'' \<mapsto> PyStr ''#1'', ''name'' \<mapsto> PyStr ''Wireless Mouse Pro 2400 DPI'',
     ''link'' \<mapsto> PyStr ''https://www.amazon.in/dp/B0A'', ''rating'' \<mapsto> PyStr [],
     ''price'' \<mapsto> PyStr [], ''asin'' \<mapsto> PyStr ''B0A'']"

definition demo_mouse :: item where
  "demo_mouse = [''rank'' \<mapsto> PyStr ''#1'', ''name'' \<mapsto> PyStr ''Wireless Mouse Pro 2400 DPI'',
     ''link'' \<mapsto> PyStr ''https://www.amazon.in/dp/B0A'', ''rating'' \<mapsto> PyStr [],
     ''price'' \<mapsto> PyStr []]"

definition demo_keyboard :: item where
  "demo_keyboard = [''rank'' \<mapsto> PyStr [], ''name'' \<mapsto> PyStr ''Mechanical Keyboard 87 keys'',
     ''link'' \<mapsto> PyStr ''https://www.amazon.in/dp/B0B'', ''rating'' \<mapsto> PyStr [],
     ''price'' \<mapsto> PyStr []]"

text \<open>
  A page whose successive measurements read 30, 25, 27, 27, ... containers (its world is
  the number of measurements taken so far, every other operation succeeds), and a page
  whose load-state waits all time out.
\<close>

fun fluctuating_count :: "nat \<Rightarrow> nat" where
  "fluctuating_count n = (if n = 0 then 30 else if n = 1 then 25 else 27)"

definition fluctuating_api :: "nat page_api" where
  "fluctuating_api =
     \<lparr>run_action = (\<lambda>a w. (Inr (), w)),
      run_count = (\<lambda>l w. (Inr (fluctuating_count w), Suc w)),
      run_inner_text = (\<lambda>l w. (Inr [], w)),
      run_get_attribute = (\<lambda>l a w. (Inr PyNone, w)),
      current_url = (\<lambda>w. ''https://www.amazon.in/gp/bestsellers/books''),
      urljoin = (\<lambda>base href. base @ href)\<rparr>"

definition stalled_api :: "unit page_api" where
  "stalled_api =
     demo_api\<lparr>run_action :=
       (\<lambda>a w. case a of
                 WaitForLoadState k t \<Rightarrow> (Inl (Exception ''Timeout exceeded.''), w)
               | _ \<Rightarrow> (Inr (), w))\<rparr>"
section \<open>Properties of the normalizers\<close>

lemma space_is_space: "is_space CHR '' ''"
  by (simp add: is_space_def)

lemma split_ws_good: "w \<in> set (split_ws s) \<Longrightarrow> good_word w"
proof (induction s arbitrary: w rule: split_ws.induct)
  case 1
  then show ?case by simp
next
  case (2 c cs)
  show ?case
  proof (cases "is_space c")
    case True
    with "2.prems" have "w \<in> set (split_ws cs)" by simp
    with True show ?thesis by (rule "2.IH"(1))
  next
    case False
    with "2.prems" have "w = c # takeWhile (\<lambda>x. \<not> is_space x) cs
        \<or> w \<in> set (split_ws (dropWhile (\<lambda>x. \<not> is_space x) cs))"
      by simp
    then show ?thesis
    proof
      assume w: "w = c # takeWhile (\<lambda>x. \<not> is_space x) cs"
      have "\<forall>x \<in> set (takeWhile (\<lambda>x. \<not> is_space x) cs). \<not> is_space x"
        by (auto dest: set_takeWhileD)
      with False show ?thesis by (simp add: good_word_def w)
    next
      assume "w \<in> set (split_ws (dropWhile (\<lambda>x. \<not> is_space x) cs))"
      with False show ?thesis by (rule "2.IH"(2))
    qed
  qed
qed

lemma split_ws_word_app:
  "good_word w \<Longrightarrow> is_space c \<Longrightarrow> split_ws (w @ c # rest) = w # split_ws rest"
proof -
  assume g: "good_word w" and sp: "is_space c"
  then obtain a as where w: "w = a # as" by (cases w) (auto simp: good_word_def)
  from g w have na: "\<not> is_space a" and nas: "\<forall>x \<in> set as. \<not> is_space x"
    by (auto simp: good_word_def)
  from nas sp have t: "takeWhile (\<lambda>x. \<not> is_space x) (as @ c # rest) = as"
    by (simp add: takeWhile_tail)
  from nas sp have d: "dropWhile (\<lambda>x. \<not> is_space x) (as @ c # rest) = c # rest"
    by (simp add: dropWhile_append3)
  show ?thesis using na sp by (simp add: w t d)
qed

lemma split_ws_single: "good_word w \<Longrightarrow> split_ws w = [w]"
proof -
  assume g: "good_word w"
  then obtain a as where w: "w = a # as" by (cases w) (auto simp: good_word_def)
  from g w have na: "\<not> is_space a" and nas: "\<forall>x \<in> set as. \<not> is_space x"
    by (auto simp: good_word_def)
  from nas have t: "takeWhile (\<lambda>x. \<not> is_space x) as = as"
    by simp
  from nas have d: "dropWhile (\<lambda>x. \<not> is_space x) as = []"
    by simp
  have "split_ws (a # as) = (a # takeWhile (\<lambda>x. \<not> is_space x) as) # split_ws (dropWhile (\<lambda>x. \<not> is_space x) as)"
    using na by simp
  also have "\<dots> = [a # as]" by (simp only: t d split_ws.simps)
  finally show ?thesis by (simp only: w)
qed

lemma str_join_Cons:
  "str_join sep (w # ws) = (if ws = [] then w else w @ sep @ str_join sep ws)"
  by (cases ws) simp_all

lemma split_ws_join:
  "\<forall>w \<in> set ws. good_word w \<Longrightarrow> split_ws (str_join '' '' ws) = ws"
proof (induction ws)
  case Nil
  then show ?case by simp
next
  case (Cons w ws)
  show ?case
  proof (cases "ws = []")
    case True
    with Cons.prems show ?thesis by (simp add: split_ws_single)
  next
    case False
    have "split_ws (w @ CHR '' '' # str_join '' '' ws) = w # split_ws (str_join '' '' ws)"
      using Cons.prems by (intro split_ws_word_app) (simp_all add: space_is_space)
    with False Cons show ?thesis by (simp add: str_join_Cons)
  qed
qed

lemma join_ends:
  "\<forall>w \<in> set ws. good_word w \<Longrightarrow> ws \<noteq> [] \<Longrightarrow>
   str_join '' '' ws \<noteq> [] \<and> \<not> is_space (hd (str_join '' '' ws))
     \<and> \<not> is_space (last (str_join '' '' ws))"
proof (induction ws)
  case Nil
  then show ?case by simp
next
  case (Cons w ws)
  from Cons.prems have gw: "w \<noteq> []" "\<not> is_space (hd w)" "\<not> is_space (last w)"
    by (auto simp: good_word_def)
  show ?case
  proof (cases "ws = []")
    case True
    with gw show ?thesis by simp
  next
    case False
    with Cons have "str_join '' '' ws \<noteq> []" "\<not> is_space (last (str_join '' '' ws))"
      by simp_all
    with gw False show ?thesis by (simp add: str_join_Cons)
  qed
qed

lemma strip_id: "s \<noteq> [] \<Longrightarrow> \<not> is_space (hd s) \<Longrightarrow> \<not> is_space (last s) \<Longrightarrow> strip s = s"
proof -
  assume a: "s \<noteq> []" "\<not> is_space (hd s)" "\<not> is_space (last s)"
  then have 1: "dropWhile is_space s = s" by (cases s) auto
  from a have "rev s \<noteq> []" "\<not> is_space (hd (rev s))" by (simp_all add: hd_rev)
  then have 2: "dropWhile is_space (rev s) = rev s" by (cases "rev s") auto
  show ?thesis by (simp add: strip_def 1 2)
qed

lemma strip_join: "\<forall>w \<in> set ws. good_word w \<Longrightarrow> strip (str_join '' '' ws) = str_join '' '' ws"
proof (cases "ws = []")
  case True
  then show ?thesis by (simp add: strip_def)
next
  case False
  assume "\<forall>w \<in> set ws. good_word w"
  with False have "str_join '' '' ws \<noteq> [] \<and> \<not> is_space (hd (str_join '' '' ws))
     \<and> \<not> is_space (last (str_join '' '' ws))" by (rule join_ends[rotated])
  then show ?thesis by (simp add: strip_id)
qed

lemma clean_text_join: "clean_text (PyStr s) = str_join '' '' (split_ws s)"
proof (cases "s = []")
  case True
  then show ?thesis by simp
next
  case False
  have "strip (str_join '' '' (split_ws s)) = str_join '' '' (split_ws s)"
    by (rule strip_join) (simp add: split_ws_good)
  with False show ?thesis by simp
qed

lemma clean_text_words:
  "\<forall>w \<in> set ws. good_word w \<Longrightarrow> clean_text (PyStr (str_join '' '' ws)) = str_join '' '' ws"
  by (simp only: clean_text_join split_ws_join)

lemma clean_text_idem: "clean_text (PyStr (clean_text v)) = clean_text v"
proof (cases v)
  case PyNone
  then show ?thesis by simp
next
  case (PyStr s)
  have "clean_text (PyStr (str_join '' '' (split_ws s))) = str_join '' '' (split_ws s)"
    by (rule clean_text_words) (simp add: split_ws_good)
  then show ?thesis using PyStr by (simp only: clean_text_join)
qed

lemma good_word_take: "good_word w \<Longrightarrow> 0 < n \<Longrightarrow> good_word (take n w)"
  by (cases w; cases n) (auto simp: good_word_def dest: in_set_takeD)

lemma take_join:
  "\<forall>w \<in> set ws. good_word w \<Longrightarrow>
   \<exists>us. (\<forall>u \<in> set us. good_word u) \<and>
     (take n (str_join '' '' ws) = str_join '' '' us
      \<or> us \<noteq> [] \<and> take n (str_join '' '' ws) = str_join '' '' us @ '' '')"
proof (induction ws arbitrary: n)
  case Nil
  have "(\<forall>u \<in> set ([]::string list). good_word u) \<and> take n (str_join '' '' []) = str_join '' '' []"
    by simp
  then show ?case by blast
next
  case (Cons w ws)
  from Cons.prems have gw: "good_word w" and gws: "\<forall>w \<in> set ws. good_word w" by simp_all
  show ?case
  proof (cases "n = 0")
    case True
    have "(\<forall>u \<in> set ([]::string list). good_word u)
        \<and> take n (str_join '' '' (w # ws)) = str_join '' '' []"
      using True by simp
    then show ?thesis by blast
  next
    case False
    note npos = this
    show ?thesis
    proof (cases "ws = [] \<or> n \<le> length w")
      case True
      then have "take n (str_join '' '' (w # ws)) = take n w"
        by (auto simp: str_join_Cons)
      moreover have "good_word (take n w)" using gw npos by (simp add: good_word_take)
      ultimately have "(\<forall>u \<in> set [take n w]. good_word u)
        \<and> take n (str_join '' '' (w # ws)) = str_join '' '' [take n w]"
        by simp
      then show ?thesis by blast
    next
      case False
      then have ne: "ws \<noteq> []" and big: "length w < n" by simp_all
      define m where "m = n - length w - 1"
      have n: "n = length w + 1 + m" using big by (simp add: m_def)
      have tk: "take n (str_join '' '' (w # ws)) = w @ '' '' @ take m (str_join '' '' ws)"
        using ne by (simp add: str_join_Cons n)
      show ?thesis
      proof (cases "m = 0")
        case True
        with tk have "(\<forall>u \<in> set [w]. good_word u) \<and> [w] \<noteq> []
            \<and> take n (str_join '' '' (w # ws)) = str_join '' '' [w] @ '' ''"
          using gw by simp
        then show ?thesis by blast
      next
        case False
        from Cons.IH[OF gws, of m] obtain us where gus: "\<forall>u \<in> set us. good_word u"
          and us: "take m (str_join '' '' ws) = str_join '' '' us
                 \<or> us \<noteq> [] \<and> take m (str_join '' '' ws) = str_join '' '' us @ '' ''"
          by blast
        have "str_join '' '' ws \<noteq> []" using join_ends[OF gws ne] by simp
        with False have "take m (str_join '' '' ws) \<noteq> []" by simp
        with us have une: "us \<noteq> []" by auto
        have g: "\<forall>u \<in> set (w # us). good_word u" using gw gus by simp
        from us show ?thesis
        proof
          assume "take m (str_join '' '' ws) = str_join '' '' us"
          with tk une have "take n (str_join '' '' (w # ws)) = str_join '' '' (w # us)"
            by (simp add: str_join_Cons)
          with g show ?thesis by blast
        next
          assume "us \<noteq> [] \<and> take m (str_join '' '' ws) = str_join '' '' us @ '' ''"
          with tk une have "w # us \<noteq> [] \<and> take n (str_join '' '' (w # ws)) = str_join '' '' (w # us) @ '' ''"
            by (simp add: str_join_Cons)
          with g show ?thesis by blast
        qed
      qed
    qed
  qed
qed

lemma split_ws_join_app:
  "\<forall>w \<in> set ws. good_word w \<Longrightarrow> ws \<noteq> [] \<Longrightarrow> is_space c \<Longrightarrow>
   split_ws (str_join '' '' ws @ c # rest) = ws @ split_ws rest"
proof (induction ws)
  case Nil
  then show ?case by simp
next
  case (Cons w ws)
  from Cons.prems have gw: "good_word w" by simp
  show ?case
  proof (cases "ws = []")
    case True
    with gw Cons.prems(3) show ?thesis by (simp add: split_ws_word_app)
  next
    case False
    have "split_ws (w @ CHR '' '' # (str_join '' '' ws @ c # rest))
        = w # split_ws (str_join '' '' ws @ c # rest)"
      using gw by (intro split_ws_word_app) (simp_all add: space_is_space)
    with False Cons show ?thesis by (simp add: str_join_Cons)
  qed
qed

lemma trunc_clean_idem_iff:
  "(take n (clean_text (PyStr (take n (clean_text v)))) = take n (clean_text v))
     = (\<not> ends_with_space (take n (clean_text v)))"
proof -
  obtain ws where gws: "\<forall>w \<in> set ws. good_word w" and c: "clean_text v = str_join '' '' ws"
  proof (cases v)
    case PyNone
    have "\<forall>w \<in> set ([]::string list). good_word w" by simp
    moreover have "clean_text v = str_join '' '' []" using PyNone by simp
    ultimately show ?thesis by (rule that)
  next
    case (PyStr s)
    have "\<forall>w \<in> set (split_ws s). good_word w" by (simp add: split_ws_good)
    moreover have "clean_text v = str_join '' '' (split_ws s)"
      using PyStr by (simp only: clean_text_join)
    ultimately show ?thesis by (rule that)
  qed
  define t where "t = take n (clean_text v)"
  have len: "length t \<le> n" by (simp add: t_def)
  from take_join[OF gws, of n] obtain us where gus: "\<forall>u \<in> set us. good_word u"
    and us: "t = str_join '' '' us \<or> us \<noteq> [] \<and> t = str_join '' '' us @ '' ''"
    unfolding t_def c by blast
  from us have "(take n (clean_text (PyStr t)) = t) = (\<not> ends_with_space t)"
  proof
    assume t: "t = str_join '' '' us"
    have "clean_text (PyStr t) = t" unfolding t by (rule clean_text_words[OF gus])
    then have l: "take n (clean_text (PyStr t)) = t" using len by simp
    have "\<not> ends_with_space t"
    proof (cases "us = []")
      case True
      then show ?thesis by (simp add: t ends_with_space_def)
    next
      case False
      from join_ends[OF gus False] have "\<not> is_space (last t)" by (simp add: t)
      then show ?thesis using space_is_space by (auto simp: ends_with_space_def)
    qed
    with l show ?thesis by simp
  next
    assume "us \<noteq> [] \<and> t = str_join '' '' us @ '' ''"
    then have une: "us \<noteq> []" and t: "t = str_join '' '' us @ '' ''" by simp_all
    have "split_ws t = us"
      unfolding t using split_ws_join_app[OF gus une space_is_space, of "[]"] by simp
    then have "clean_text (PyStr t) = str_join '' '' us" by (simp only: clean_text_join)
    then have "length (take n (clean_text (PyStr t))) < length t" by (simp add: t)
    then have "take n (clean_text (PyStr t)) \<noteq> t" by (metis less_irrefl)
    moreover have "ends_with_space t" by (simp add: t ends_with_space_def)
    ultimately show ?thesis by simp
  qed
  then show ?thesis by (simp only: t_def)
qed

lemma clean_product_name_take: "clean_product_name v = take 500 (clean_text v)"
  by (cases v) (simp_all add: Let_def)

lemma clean_rating_take: "clean_rating v = take 100 (clean_text v)"
  by (cases v) simp_all

lemma clean_product_name_idem_iff:
  "(clean_product_name (PyStr (clean_product_name v)) = clean_product_name v)
     = (\<not> ends_with_space (clean_product_name v))"
  by (simp only: clean_product_name_take trunc_clean_idem_iff)

lemma clean_rating_idem_iff:
  "(clean_rating (PyStr (clean_rating v)) = clean_rating v)
     = (\<not> ends_with_space (clean_rating v))"
  by (simp only: clean_rating_take trunc_clean_idem_iff)

lemma trunc_example:
  "take (Suc n) (clean_text (PyStr (replicate n CHR ''a'' @ '' b''))) = replicate n CHR ''a'' @ '' ''" if "0 < n"
proof -
  have g: "\<forall>w \<in> set [replicate n CHR ''a'', ''b'']. good_word w"
    using that by (simp add: good_word_def is_space_def)
  have "clean_text (PyStr (str_join '' '' [replicate n CHR ''a'', ''b'']))
       = str_join '' '' [replicate n CHR ''a'', ''b'']"
    by (rule clean_text_words[OF g])
  then have "clean_text (PyStr (replicate n CHR ''a'' @ '' b'')) = replicate n CHR ''a'' @ '' b''"
    by simp
  then show ?thesis by simp
qed

section \<open>Properties of the rank pattern\<close>

lemma rank_match_here_nondigit:
  "\<not> is_digit c \<Longrightarrow> rank_match_here (c # cs) =
     (if c = CHR ''#'' \<and> takeWhile is_digit cs \<noteq> [] then Some (takeWhile is_digit cs) else None)"
  by (simp add: rank_match_here_def)

lemma hash_not_digit: "\<not> is_digit CHR ''#''"
  by (simp add: is_digit_def)

lemma rank_match_here_digit:
  "is_digit c \<Longrightarrow> rank_match_here (c # cs) = Some (c # takeWhile is_digit cs)"
  using hash_not_digit by (auto simp add: rank_match_here_def)

lemma rank_search_first_run:
  "rank_search s =
     (if filter is_digit s = [] then None
      else Some (takeWhile is_digit (dropWhile (\<lambda>c. \<not> is_digit c) s)))"
proof (induction s)
  case Nil
  then show ?case by simp
next
  case (Cons c cs)
  show ?case
  proof (cases "is_digit c")
    case True
    then show ?thesis by (simp add: rank_match_here_digit)
  next
    case False
    note nd = this
    show ?thesis
    proof (cases cs)
      case Nil
      with nd show ?thesis by (simp add: rank_match_here_nondigit)
    next
      case (Cons d ds)
      show ?thesis
      proof (cases "is_digit d")
        case True
        with nd Cons Cons.IH show ?thesis
          by (simp add: rank_match_here_nondigit rank_match_here_digit)
      next
        case False
        with nd Cons Cons.IH show ?thesis
          by (simp add: rank_match_here_nondigit)
      qed
    qed
  qed
qed

section \<open>Properties of validation\<close>

lemma unique_by_link_subset: "set (unique_by_link seen xs) \<subseteq> set xs"
  by (induction xs arbitrary: seen) auto

lemma validated_items_sound:
  "v \<in> set (validated_items items) \<Longrightarrow>
   \<exists>raw \<in> set items. v = validated_item raw
      \<and> truthy (dict_get v ''name'') \<and> truthy (dict_get v ''link'')
      \<and> py_len (dict_get v ''name'') > 10"
proof (induction items)
  case Nil
  then show ?case by simp
next
  case (Cons item items)
  then show ?case by (auto simp: Let_def split: if_splits)
qed

lemma validated_item_name:
  "validated_item raw ''name'' = Some (PyStr (clean_product_name (dict_get_default raw ''name'' (PyStr ''''))))"
  by (simp add: validated_item_def)

lemma validated_item_link:
  "validated_item raw ''link'' = Some (PyStr (validate_product_link (dict_get_default raw ''link'' (PyStr ''''))))"
  by (simp add: validated_item_def)

lemma dom_validated_item: "dom (validated_item raw) = item_fields"
  by (auto simp: validated_item_def item_fields_def)

lemma validated_item_asin: "validated_item raw ''asin'' = None"
  by (simp add: validated_item_def)

lemma validated_item_raw1: "validated_item raw1 = [''rank'' \<mapsto> PyStr ''#1'', ''name'' \<mapsto> PyStr ''Wireless Mouse Pro'',
           ''link'' \<mapsto> PyStr ''https://www.amazon.in/dp/B0A'', ''rating'' \<mapsto> PyStr ''4.5 out of 5 stars'',
           ''price'' \<mapsto> PyStr ''Rs 499'']"
  by (simp add: validated_item_def raw1_def dict_get_default_def rank_match_here_def is_digit_def is_space_def strip_def)

lemma validate_raw1: "validate_and_clean_items [raw1] = [validated_item raw1]"
  by (simp add: validate_and_clean_items_def validated_item_raw1 dict_get_def) (simp add: raw1_def dict_get_def)

lemma dedup_loop_links:
  assumes "\<forall>it \<in> set items. \<not> truthy (dict_get_default it ''asin'' (PyStr ''''))"
  shows "distinct (map (\<lambda>it. dict_get_default it ''link'' (PyStr '''')) (dedup_loop seen_links seen_asins items))
       \<and> (\<forall>it \<in> set (dedup_loop seen_links seen_asins items).
             dict_get_default it ''link'' (PyStr '''') \<notin> seen_links)"
  using assms
proof (induction items arbitrary: seen_links)
  case Nil
  then show ?case by simp
next
  case (Cons item items)
  from Cons.prems have na: "\<not> truthy (dict_get_default item ''asin'' (PyStr ''''))"
    and rest: "\<forall>it \<in> set items. \<not> truthy (dict_get_default it ''asin'' (PyStr ''''))"
    by simp_all
  have same: "dict_get_default (item(''asin'' := None)) ''link'' (PyStr '''')
      = dict_get_default item ''link'' (PyStr '''')"
    by (simp add: dict_get_default_def)
  show ?case
  proof (cases "truthy (dict_get_default item ''link'' (PyStr ''''))
       \<and> dict_get_default item ''link'' (PyStr '''') \<notin> seen_links")
    case True
    from Cons.IH[OF rest, of "insert (dict_get_default item ''link'' (PyStr '''')) seen_links"]
    show ?thesis using True na by (auto simp: Let_def same)
  next
    case False
    from Cons.IH[OF rest, of seen_links]
    show ?thesis using False na by (auto simp: Let_def)
  qed
qed

lemma dedup_distinct_links:
  assumes "\<forall>it \<in> set items. \<not> truthy (dict_get_default it ''asin'' (PyStr []))"
  shows "distinct (map (\<lambda>it. dict_get_default it ''link'' (PyStr [])) (deduplicate_products items))"
  using dedup_loop_links[OF assms] by (simp add: deduplicate_products_def)

section \<open>Properties of the log\<close>

lemma emitsI: "(\<And>s. \<exists>new. snd (snd (m s)) = snd s @ new \<and> list_all P new) \<Longrightarrow> emits P m"
  unfolding emits_def by blast

lemma emitsD: "emits P m \<Longrightarrow> \<exists>new. snd (snd (m s)) = snd s @ new \<and> list_all P new"
  unfolding emits_def by blast

lemma emits_return: "emits P (return_io x)"
  by (simp add: emits_def return_io_def)

lemma emits_perform: "P c \<Longrightarrow> emits P (perform c f)"
  by (auto simp: emits_def perform_def split: prod.splits)

lemma emits_page_url: "emits P (page_url api)"
  by (auto simp: emits_def page_url_def split: prod.splits)

lemma emits_bind:
  assumes "emits P m" and "\<And>x. emits P (f x)"
  shows "emits P (bind_io m f)"
proof (rule emitsI)
  fix s
  obtain r s1 where ms: "m s = (r, s1)" by (cases "m s")
  from emitsD[OF assms(1), of s] ms obtain new1 where n1: "snd s1 = snd s @ new1" "list_all P new1"
    by auto
  show "\<exists>new. snd (snd (bind_io m f s)) = snd s @ new \<and> list_all P new"
  proof (cases r)
    case (Inl e)
    with ms n1 show ?thesis by (auto simp: bind_io_def)
  next
    case (Inr x)
    from emitsD[OF assms(2), of x s1] obtain new2 where
      n2: "snd (snd (f x s1)) = snd s1 @ new2" "list_all P new2" by auto
    with ms n1 Inr have "snd (snd (bind_io m f s)) = snd s @ (new1 @ new2) \<and> list_all P (new1 @ new2)"
      by (simp add: bind_io_def)
    then show ?thesis by blast
  qed
qed

lemma emits_try:
  assumes "emits P m" and "\<And>e. emits P (h e)"
  shows "emits P (try_except m h)"
proof (rule emitsI)
  fix s
  obtain r s1 where ms: "m s = (r, s1)" by (cases "m s")
  from emitsD[OF assms(1), of s] ms obtain new1 where n1: "snd s1 = snd s @ new1" "list_all P new1"
    by auto
  show "\<exists>new. snd (snd (try_except m h s)) = snd s @ new \<and> list_all P new"
  proof (cases r)
    case (Inr x)
    with ms n1 show ?thesis by (auto simp: try_except_def)
  next
    case (Inl e)
    from emitsD[OF assms(2), of e s1] obtain new2 where
      n2: "snd (snd (h e s1)) = snd s1 @ new2" "list_all P new2" by auto
    with ms n1 Inl have "snd (snd (try_except m h s)) = snd s @ (new1 @ new2) \<and> list_all P (new1 @ new2)"
      by (simp add: try_except_def)
    then show ?thesis by blast
  qed
qed

lemma emits_if: "emits P a \<Longrightarrow> emits P b \<Longrightarrow> emits P (if c then a else b)"
  by simp

lemma emits_page_action: "P (Act a) \<Longrightarrow> emits P (page_action api a)"
  by (simp add: page_action_def emits_perform)

lemma emits_loc_count: "P (Count l) \<Longrightarrow> emits P (loc_count api l)"
  by (simp add: loc_count_def emits_perform)

lemma emits_inner_text: "P (InnerText l) \<Longrightarrow> emits P (inner_text api l)"
  by (simp add: inner_text_def emits_perform)

lemma emits_get_attribute: "P (GetAttribute l a) \<Longrightarrow> emits P (get_attribute api l a)"
  by (simp add: get_attribute_def emits_perform)

lemma asin_not_product: "Locator asin_selector \<noteq> Locator product_link_selector"
  by (simp add: asin_selector_def product_link_selector_def)

lemma emits_scroll_loop:
  "quiet P \<Longrightarrow> emits P (scroll_loop api pause_ms k scroll_num lastc stab)"
proof (induction k arbitrary: scroll_num lastc stab)
  case 0
  then show ?case by (simp add: emits_return)
next
  case (Suc k)
  from Suc.prems asin_not_product have q: "P (Act (Evaluate scroll_script))" "\<And>t. P (Act (WaitForTimeout t))"
    "P (Count (Locator asin_selector))" by (auto simp: quiet_def)
  show ?case
    unfolding scroll_loop.simps Let_def
    by (intro emits_bind emits_if emits_return emits_page_action emits_loc_count q Suc.IH Suc.prems)
qed

lemma emits_scroll_to_bottom:
  "quiet P \<Longrightarrow> emits P (scroll_to_bottom_enhanced api max_scrolls pause_ms)"
proof -
  assume qp: "quiet P"
  with asin_not_product have q: "\<And>k t. P (Act (WaitForLoadState k t))" "P (Count (Locator asin_selector))"
    by (auto simp: quiet_def)
  show ?thesis
    unfolding scroll_to_bottom_enhanced_def
    by (intro emits_bind emits_try emits_page_action emits_loc_count q emits_scroll_loop qp)
qed

lemma bind_io_run:
  "bind_io m f s = (case m s of (Inl e, s') \<Rightarrow> (Inl e, s') | (Inr x, s') \<Rightarrow> f x s')"
  by (simp add: bind_io_def)

lemma try_except_run:
  "try_except m h s = (case m s of (Inl e, s') \<Rightarrow> h e s' | (Inr x, s') \<Rightarrow> (Inr x, s'))"
  by (simp add: try_except_def)

lemma return_io_run: "return_io x s = (Inr x, s)"
  by (simp add: return_io_def)

lemma perform_run: "perform c f (w, log) = (case f w of (r, w') \<Rightarrow> (r, (w', log @ [c])))"
  by (simp add: perform_def)

lemma page_url_run: "page_url api (w, log) = (Inr (current_url api w), (w, log))"
  by (simp add: page_url_def)

lemmas run_simps = bind_io_run try_except_run return_io_run perform_run page_url_run
  page_action_def loc_count_def inner_text_def get_attribute_def

lemma scroll_loop_numeral:
  "scroll_loop api pause_ms (numeral k) scroll_num last_asin_count stable_iterations s =
     bind_io (page_action api (Evaluate scroll_script)) (\<lambda>_.
     bind_io (page_action api (WaitForTimeout pause_ms)) (\<lambda>_.
     bind_io (loc_count api (Locator asin_selector)) (\<lambda>current_asin_count.
       let last' = (if current_asin_count > last_asin_count
                    then current_asin_count else last_asin_count);
           stable' = (if current_asin_count > last_asin_count
                      then 0 else stable_iterations + 1)
       in if stable' \<ge> 2 \<and> current_asin_count \<ge> 20 then return_io ()
          else bind_io (if current_asin_count < 10 \<and> scroll_num \<ge> 3
                        then page_action api (WaitForTimeout 2000) else return_io ())
                 (\<lambda>_. scroll_loop api pause_ms (pred_numeral k) (Suc scroll_num) last' stable')))) s"
  by (simp only: numeral_eq_Suc scroll_loop.simps)

lemma emits_case_prod: "(\<And>a b. emits P (f a b)) \<Longrightarrow> emits P (case_prod f x)"
  by (cases x) simp

lemma emits_case_pyval:
  "emits P a \<Longrightarrow> (\<And>h. emits P (f h)) \<Longrightarrow> emits P (case v of PyNone \<Rightarrow> a | PyStr h \<Rightarrow> f h)"
  by (cases v) simp_all

lemma quiet_queries:
  assumes "quiet P"
  shows "P (InnerText l)" "P (GetAttribute l a)" "P (Count (Within l sel))" "P (Count (First l))"
    "P (Count (Nth l i))" "P (Act (WaitForTimeout t))" "P (Act (WaitForLoadState k t))"
    "P (Act (Evaluate j))" "P (Act (Reload k t))" "P (Count (Locator asin_selector))"
    "P (Count (Locator rank_badge_selector))" "P (Count (Locator price_selector))"
    "P (Count (Locator rating_link_selector))"
  using assms
  by (simp_all add: quiet_def asin_selector_def product_link_selector_def rank_badge_selector_def
      price_selector_def rating_link_selector_def)

lemma emits_find_name_link:
  assumes qp: "quiet P"
  shows "emits P (find_name_link api link_elements k j)"
proof (induction k arbitrary: j)
  case 0
  then show ?case by (simp add: emits_return)
next
  case (Suc k)
  note q = quiet_queries[OF qp]
  show ?case
    unfolding find_name_link.simps Let_def
    by (intro emits_bind emits_case_pyval emits_if emits_return emits_inner_text emits_get_attribute
        q Suc.IH)
qed

lemma emits_text_if_present:
  assumes qp: "quiet P"
  shows "emits P (text_if_present api (First l))"
proof -
  note q = quiet_queries[OF qp]
  show ?thesis
    unfolding text_if_present_def
    by (intro emits_bind emits_if emits_return emits_inner_text emits_loc_count q)
qed

lemma emits_attribute_if_present:
  assumes qp: "quiet P"
  shows "emits P (attribute_if_present api (First l) a)"
proof -
  note q = quiet_queries[OF qp]
  show ?thesis
    unfolding attribute_if_present_def
    by (intro emits_bind emits_if emits_return emits_get_attribute emits_loc_count q)
qed

lemma emits_container_item:
  assumes qp: "quiet P"
  shows "emits P (container_item api container)"
proof -
  note q = quiet_queries[OF qp]
  show ?thesis
    unfolding container_item_def
    by (intro emits_bind emits_case_prod emits_if emits_return emits_get_attribute emits_loc_count
        emits_find_name_link[OF qp] emits_text_if_present[OF qp] emits_attribute_if_present[OF qp] q)
qed

lemma emits_asin_containers_loop:
  assumes qp: "quiet P"
  shows "emits P (asin_containers_loop api asin_containers k i items)"
proof (induction k arbitrary: i items)
  case 0
  then show ?case by (simp add: emits_return)
next
  case (Suc k)
  show ?case
    unfolding asin_containers_loop.simps
    by (intro emits_bind emits_try emits_return emits_container_item[OF qp] Suc.IH)
qed

lemma emits_asin_method:
  assumes qp: "quiet P"
  shows "emits P (asin_method api)"
proof -
  note q = quiet_queries[OF qp]
  show ?thesis
    unfolding asin_method_def extract_from_asin_containers_universal_def
    by (intro emits_bind emits_if emits_return emits_loc_count emits_scroll_to_bottom[OF qp]
        emits_asin_containers_loop[OF qp] q)
qed

lemma emits_valid_links_loop:
  assumes qp: "quiet P"
  shows "emits P (valid_links_loop api product_links k i valid)"
proof (induction k arbitrary: i valid)
  case 0
  then show ?case by (simp add: emits_return)
next
  case (Suc k)
  note q = quiet_queries[OF qp]
  show ?case
    unfolding valid_links_loop.simps Let_def
    by (intro emits_bind emits_try emits_return emits_inner_text emits_get_attribute q Suc.IH)
qed

lemma emits_text_at:
  assumes qp: "quiet P" and c: "P (Count l)"
  shows "emits P (text_at api l idx)"
proof -
  note q = quiet_queries[OF qp]
  show ?thesis
    unfolding text_at_def
    by (intro emits_bind emits_if emits_return emits_inner_text emits_loc_count q c)
qed

lemma emits_attribute_at:
  assumes qp: "quiet P" and c: "P (Count l)"
  shows "emits P (attribute_at api l idx a)"
proof -
  note q = quiet_queries[OF qp]
  show ?thesis
    unfolding attribute_at_def
    by (intro emits_bind emits_if emits_return emits_get_attribute emits_loc_count q c)
qed

lemma emits_correlate_loop:
  assumes qp: "quiet P"
  shows "emits P (correlate_loop api idx links items)"
proof (induction links arbitrary: idx items)
  case Nil
  then show ?case by (simp add: emits_return)
next
  case (Cons nl links)
  obtain name link where nl: "nl = (name, link)" by (cases nl)
  note q = quiet_queries[OF qp]
  show ?case
    unfolding nl correlate_loop.simps
    by (intro emits_bind emits_try emits_return emits_text_at[OF qp] emits_attribute_at[OF qp]
        q Cons.IH)
qed

lemma emits_universal_selectors:
  assumes qp: "quiet P" and c: "P (Count (Locator product_link_selector))"
  shows "emits P (extract_using_universal_selectors api)"
  unfolding extract_using_universal_selectors_def
  by (intro emits_bind emits_loc_count emits_valid_links_loop[OF qp] emits_correlate_loop[OF qp] c)

lemma emits_extract_products_on_page:
  assumes qp: "quiet P" and c: "P (Count (Locator product_link_selector))"
  shows "emits P (extract_products_on_page api)"
  unfolding extract_products_on_page_def universal_fallback_def
  by (intro emits_bind emits_if emits_return emits_asin_method[OF qp]
      emits_universal_selectors[OF qp c])

lemma quiet_anything: "quiet anything"
  by (simp add: quiet_def anything_def)

lemma anything_holds: "anything c"
  by (simp add: anything_def)

lemma emits_any_navigate_by_url: "emits anything (navigate_by_url_modification api)"
  unfolding navigate_by_url_modification_def Let_def
  by (intro emits_bind emits_page_url emits_page_action anything_holds)

lemma emits_any_attempt:
  assumes "emits anything strategy"
  shows "emits anything (attempt_navigation api strategy)"
  unfolding attempt_navigation_def
  by (intro emits_try emits_bind emits_if emits_return emits_page_url emits_page_action
      emits_loc_count anything_holds assms)

lemma emits_any_try_strategies:
  assumes "\<forall>st \<in> set sts. emits anything st"
  shows "emits anything (try_strategies api sts)"
  using assms
proof (induction sts)
  case Nil
  then show ?case by (simp add: emits_return)
next
  case (Cons st sts)
  from Cons.prems have st: "emits anything st" and rest: "\<forall>st \<in> set sts. emits anything st"
    by simp_all
  show ?case
    unfolding try_strategies.simps
    by (intro emits_bind emits_if emits_return emits_any_attempt[OF st] Cons.IH[OF rest])
qed

lemma emits_any_navigate: "emits anything (navigate_to_next_page api)"
  unfolding navigate_to_next_page_def
  by (rule emits_any_try_strategies)
    (auto simp: navigation_strategies_def intro!: emits_page_action anything_holds
      emits_any_navigate_by_url)

lemma emits_any_extract_products: "emits anything (extract_products_on_page api)"
  by (rule emits_extract_products_on_page[OF quiet_anything anything_holds])

lemma asin_containers_loop_numeral:
  "asin_containers_loop api asin_containers (numeral k) i items s =
     bind_io (try_except
                (bind_io (container_item api (Nth asin_containers i)) (\<lambda>r.
                   return_io (case r of None \<Rightarrow> items | Some it \<Rightarrow> items @ [it])))
                (\<lambda>e. return_io items)) (\<lambda>items'.
     asin_containers_loop api asin_containers (pred_numeral k) (Suc i) items') s"
  by (simp only: numeral_eq_Suc asin_containers_loop.simps)

lemma valid_links_loop_numeral:
  "valid_links_loop api product_links (numeral k) i valid s =
     bind_io (try_except
                (bind_io (inner_text api (Nth product_links i)) (\<lambda>t.
                 bind_io (get_attribute api (Nth product_links i) ''href'') (\<lambda>href.
                   let text = clean_text (PyStr t)
                   in return_io
                        (case href of
                           PyNone \<Rightarrow> valid
                         | PyStr h \<Rightarrow>
                             if text \<noteq> [] \<and> length text > 15 \<and> h \<noteq> []
                                \<and> str_contains h ''/dp/'' \<and> \<not> rating_phrase text
                                \<and> \<not> str_contains (str_lower text) ''star''
                             then valid @ [(text, urljoin api BASE_URL h)]
                             else valid))))
                (\<lambda>e. return_io valid)) (\<lambda>valid'.
     valid_links_loop api product_links (pred_numeral k) (Suc i) valid') s"
  by (simp only: numeral_eq_Suc valid_links_loop.simps)

lemma selectors_distinct:
  "asin_selector \<noteq> product_link_selector" "asin_selector \<noteq> rank_badge_selector"
  "asin_selector \<noteq> rating_link_selector" "asin_selector \<noteq> price_selector"
  "product_link_selector \<noteq> asin_selector" "product_link_selector \<noteq> rank_badge_selector"
  "product_link_selector \<noteq> rating_link_selector" "product_link_selector \<noteq> price_selector"
  "rank_badge_selector \<noteq> asin_selector" "rank_badge_selector \<noteq> product_link_selector"
  "rank_badge_selector \<noteq> rating_link_selector" "rank_badge_selector \<noteq> price_selector"
  "rating_link_selector \<noteq> asin_selector" "rating_link_selector \<noteq> product_link_selector"
  "rating_link_selector \<noteq> rank_badge_selector" "rating_link_selector \<noteq> price_selector"
  "price_selector \<noteq> asin_selector" "price_selector \<noteq> product_link_selector"
  "price_selector \<noteq> rank_badge_selector" "price_selector \<noteq> rating_link_selector"
  by (simp_all add: asin_selector_def product_link_selector_def rank_badge_selector_def
      rating_link_selector_def price_selector_def)

lemmas demo_simps = run_simps demo_api_def scroll_loop_numeral asin_containers_loop_numeral
  valid_links_loop_numeral selectors_distinct

lemma demo_asin_method: "fst (asin_method demo_api ((), log)) = Inr [demo_raw]"
  by (simp add: asin_method_def scroll_to_bottom_enhanced_def extract_from_asin_containers_universal_def
      container_item_def text_if_present_def attribute_if_present_def demo_simps BASE_URL_def
      is_space_def strip_def is_digit_def rating_phrase_def str_lower_def lower_char_def demo_raw_def)

lemma bind_io_Inr: "m s = (Inr x, s1) \<Longrightarrow> bind_io m f s = f x s1"
  by (simp add: bind_io_def)

lemma bind_io_Inl: "m s = (Inl e, s1) \<Longrightarrow> bind_io m f s = (Inl e, s1)"
  by (simp add: bind_io_def)

lemma bind_io_assoc: "bind_io (bind_io m f) g = bind_io m (\<lambda>x. bind_io (f x) g)"
  by (auto simp: bind_io_def fun_eq_iff split: prod.splits sum.splits)

lemma snd_try_return: "snd (try_except m (\<lambda>e. return_io (g e)) s) = snd (m s)"
  by (auto simp: try_except_def return_io_def split: prod.splits sum.splits)

lemma try_except_Inr: "m s = (Inr x, s1) \<Longrightarrow> try_except m h s = (Inr x, s1)"
  by (simp add: try_except_def)

lemma try_except_Inl: "m s = (Inl e, s1) \<Longrightarrow> try_except m h s = h e s1"
  by (simp add: try_except_def)

subsection \<open>opens_then\<close>

lemma opens_thenD:
  "opens_then c P m \<Longrightarrow> \<exists>rest. snd (snd (m s)) = snd s @ c # rest \<and> list_all P rest"
  unfolding opens_then_def by blast

lemma opens_perform: "opens_then c P (perform c f)"
  by (auto simp: opens_then_def perform_def split: prod.splits)

lemma opens_page_action: "opens_then (Act a) P (page_action api a)"
  by (simp add: page_action_def opens_perform)

lemma opens_loc_count: "opens_then (Count l) P (loc_count api l)"
  by (simp add: loc_count_def opens_perform)

lemma opens_bind:
  assumes "opens_then c P m" and "\<And>x. emits P (f x)"
  shows "opens_then c P (bind_io m f)"
  unfolding opens_then_def
proof
  fix s
  obtain r s1 where ms: "m s = (r, s1)" by (cases "m s")
  from opens_thenD[OF assms(1), of s] ms obtain rest1 where
    n1: "snd s1 = snd s @ c # rest1" "list_all P rest1" by auto
  show "\<exists>rest. snd (snd (bind_io m f s)) = snd s @ c # rest \<and> list_all P rest"
  proof (cases r)
    case (Inl e)
    with ms n1 show ?thesis by (auto simp: bind_io_def)
  next
    case (Inr x)
    from emitsD[OF assms(2), of x s1] obtain new2 where
      n2: "snd (snd (f x s1)) = snd s1 @ new2" "list_all P new2" by auto
    with ms n1 Inr have "snd (snd (bind_io m f s)) = snd s @ c # (rest1 @ new2)
        \<and> list_all P (rest1 @ new2)"
      by (simp add: bind_io_def)
    then show ?thesis by blast
  qed
qed

lemma opens_try:
  assumes "opens_then c P m" and "\<And>e. emits P (h e)"
  shows "opens_then c P (try_except m h)"
  unfolding opens_then_def
proof
  fix s
  obtain r s1 where ms: "m s = (r, s1)" by (cases "m s")
  from opens_thenD[OF assms(1), of s] ms obtain rest1 where
    n1: "snd s1 = snd s @ c # rest1" "list_all P rest1" by auto
  show "\<exists>rest. snd (snd (try_except m h s)) = snd s @ c # rest \<and> list_all P rest"
  proof (cases r)
    case (Inr x)
    with ms n1 show ?thesis by (auto simp: try_except_def)
  next
    case (Inl e)
    from emitsD[OF assms(2), of e s1] obtain new2 where
      n2: "snd (snd (h e s1)) = snd s1 @ new2" "list_all P new2" by auto
    with ms n1 Inl have "snd (snd (try_except m h s)) = snd s @ c # (rest1 @ new2)
        \<and> list_all P (rest1 @ new2)"
      by (simp add: try_except_def)
    then show ?thesis by blast
  qed
qed

lemma opens_universal_selectors:
  "opens_then (Count (Locator product_link_selector)) anything
     (extract_using_universal_selectors api)"
  unfolding extract_using_universal_selectors_def
  by (intro opens_bind opens_loc_count emits_bind emits_valid_links_loop[OF quiet_anything]
      emits_correlate_loop[OF quiet_anything])

lemma opens_navigate:
  "opens_then (Act (Click (ByText ''Next page'') 5000)) anything (navigate_to_next_page api)"
proof -
  obtain others where split: "navigation_strategies api =
      page_action api (Click (ByText ''Next page'') 5000) # others"
    and others: "\<forall>st \<in> set others. emits anything st"
    by (auto simp: navigation_strategies_def intro!: emits_page_action anything_holds
        emits_any_navigate_by_url)
  have rest: "emits anything (try_strategies api others)"
    by (rule emits_any_try_strategies[OF others])
  have "opens_then (Act (Click (ByText ''Next page'') 5000)) anything
     (bind_io (attempt_navigation api (page_action api (Click (ByText ''Next page'') 5000)))
        (\<lambda>ok. if ok then return_io True else try_strategies api others))"
    unfolding attempt_navigation_def
    by (intro opens_bind opens_try opens_page_action emits_bind emits_if emits_return
        emits_page_url emits_page_action emits_loc_count anything_holds rest)
  then show ?thesis
    by (simp only: navigate_to_next_page_def split try_strategies.simps)
qed

lemma quiet_before_fallback: "quiet before_fallback"
  by (simp add: quiet_def before_fallback_def)

lemma quiet_not_navigation: "quiet not_navigation"
  by (simp add: quiet_def not_navigation_def)

lemma opens_load_category_page:
  "opens_then (Act (Goto (category_url category) ''domcontentloaded'' 30000)) not_navigation
     (load_category_page api category)"
proof -
  note q = quiet_queries[OF quiet_not_navigation]
  show ?thesis
    unfolding load_category_page_def
    by (intro opens_bind opens_page_action emits_bind emits_if emits_return emits_page_action
        emits_loc_count q)
qed

lemma opens_extract_first_page:
  "opens_then (Act (Goto (category_url category) ''domcontentloaded'' 30000)) not_navigation
     (extract_first_page api category)"
proof -
  have c: "not_navigation (Count (Locator product_link_selector))"
    by (simp add: not_navigation_def)
  show ?thesis
    unfolding extract_first_page_def
    by (intro opens_bind opens_load_category_page emits_bind emits_return
        emits_extract_products_on_page[OF quiet_not_navigation c])
qed

lemma bind_io_Inr_result:
  "bind_io m f s = (Inr y, s') \<Longrightarrow> \<exists>x s1. m s = (Inr x, s1) \<and> f x s1 = (Inr y, s')"
  by (auto simp: bind_io_def split: prod.splits sum.splits)

lemma return_io_result: "return_io x s = (Inr y, s') \<Longrightarrow> y = x \<and> s' = s"
  by (simp add: return_io_def)

lemma extract_products_output:
  assumes "extract_products_on_page api s = (Inr batch, s')"
  shows "\<exists>items. batch = validate_and_clean_items items"
proof -
  from assms obtain items s1 where
    "bind_io (universal_fallback api items) (\<lambda>items'. return_io (validate_and_clean_items items')) s1
       = (Inr batch, s')"
    unfolding extract_products_on_page_def by (blast dest: bind_io_Inr_result)
  then obtain items' s2 where "return_io (validate_and_clean_items items') s2 = (Inr batch, s')"
    by (blast dest: bind_io_Inr_result)
  then show ?thesis by (auto dest: return_io_result)
qed

lemma extract_second_output:
  assumes "extract_second_page api first_batch s = (Inr batch, s')"
  shows "\<exists>items. batch = validate_and_clean_items items"
proof (cases "length first_batch \<ge> 15")
  case False
  with assms have "batch = []" by (simp add: extract_second_page_def return_io_def)
  then have "batch = validate_and_clean_items []" by (simp add: validate_and_clean_items_def)
  then show ?thesis by blast
next
  case True
  with assms obtain navigated s1 where
    n: "(if navigated
         then bind_io (page_action api (WaitForTimeout 2000)) (\<lambda>_. extract_products_on_page api)
         else return_io []) s1 = (Inr batch, s')"
    unfolding extract_second_page_def by (auto dest: bind_io_Inr_result)
  show ?thesis
  proof (cases navigated)
    case True
    with n obtain s2 where "extract_products_on_page api s2 = (Inr batch, s')"
      by (auto dest: bind_io_Inr_result)
    then show ?thesis by (rule extract_products_output)
  next
    case False
    with n have "batch = []" by (simp add: return_io_def)
    then have "batch = validate_and_clean_items []" by (simp add: validate_and_clean_items_def)
    then show ?thesis by blast
  qed
qed

lemma validated_output_fields:
  assumes "v \<in> set (validate_and_clean_items items)"
  shows "dom v = item_fields \<and> v ''asin'' = None"
proof -
  from assms have "v \<in> set (validated_items items)"
    using unique_by_link_subset by (auto simp: validate_and_clean_items_def)
  from validated_items_sound[OF this] obtain raw where "v = validated_item raw" by blast
  then show ?thesis by (simp add: dom_validated_item validated_item_asin)
qed

lemma scrape_try_result:
  assumes "scrape_category_try api category s = (Inr r, s')"
  shows "\<exists>n first_batch second_batch p1 p2.
           r = success_result category n first_batch second_batch
         \<and> first_batch = validate_and_clean_items p1 \<and> second_batch = validate_and_clean_items p2"
proof -
  from assms obtain x s1 where f: "extract_first_page api category s = (Inr x, s1)"
    and rest: "(case x of (n, fb) \<Rightarrow> bind_io (extract_second_page api fb)
         (\<lambda>sb. return_io (success_result category n fb sb))) s1 = (Inr r, s')"
    unfolding scrape_category_try_def by (blast dest: bind_io_Inr_result)
  obtain n fb where x: "x = (n, fb)" by (cases x)
  from rest x obtain sb s2 where sec: "extract_second_page api fb s1 = (Inr sb, s2)"
    and r: "return_io (success_result category n fb sb) s2 = (Inr r, s')"
    by (auto dest: bind_io_Inr_result)
  from f x obtain s0 s0' where "extract_products_on_page api s0 = (Inr fb, s0')"
    unfolding extract_first_page_def by (auto dest!: bind_io_Inr_result return_io_result)
  then obtain p1 where p1: "fb = validate_and_clean_items p1" by (blast dest: extract_products_output)
  from sec obtain p2 where p2: "sb = validate_and_clean_items p2" by (blast dest: extract_second_output)
  from r have "r = success_result category n fb sb" by (auto dest: return_io_result)
  with p1 p2 show ?thesis by blast
qed

lemma success_result_bounds:
  "length (category_items (success_result category n fb sb)) \<le> 100
   \<and> extraction_stats (success_result category n fb sb) ''final_unique_items''
       = Some (StatInt (length (category_items (success_result category n fb sb))))"
  by (simp add: success_result_def Let_def)

lemma failure_result_bounds:
  "length (category_items (failure_result category e)) \<le> 100
   \<and> extraction_stats (failure_result category e) ''final_unique_items''
       = Some (StatInt (length (category_items (failure_result category e))))"
  by (simp add: failure_result_def)

lemma scrape_category_cases:
  "(\<exists>e s1. scrape_category_try api category s = (Inl e, s1)
        \<and> scrape_category api category s = (Inr (failure_result category e), s1))
   \<or> (\<exists>r s1. scrape_category_try api category s = (Inr r, s1)
        \<and> scrape_category api category s = (Inr r, s1))"
proof -
  obtain x s1 where t: "scrape_category_try api category s = (x, s1)"
    by (cases "scrape_category_try api category s")
  show ?thesis
  proof (cases x)
    case (Inl e)
    with t show ?thesis by (simp add: scrape_category_def try_except_def return_io_def)
  next
    case (Inr r)
    with t show ?thesis by (simp add: scrape_category_def try_except_def)
  qed
qed

subsection \<open>Counting scrolls\<close>

lemma at_most_scrollsD:
  "at_most_scrolls n m \<Longrightarrow>
   \<exists>new. snd (snd (m s)) = snd s @ new \<and> length (filter is_scroll new) \<le> n"
  unfolding at_most_scrolls_def by blast

lemma scrolls_return: "at_most_scrolls n (return_io x)"
  by (simp add: at_most_scrolls_def return_io_def)

lemma scrolls_perform_other: "\<not> is_scroll c \<Longrightarrow> at_most_scrolls n (perform c f)"
  by (auto simp: at_most_scrolls_def perform_def split: prod.splits)

lemma scrolls_perform_scroll: "at_most_scrolls (Suc n) (perform c f)"
  by (auto simp: at_most_scrolls_def perform_def split: prod.splits)

lemma scrolls_weaken: "at_most_scrolls a m \<Longrightarrow> a \<le> b \<Longrightarrow> at_most_scrolls b m"
  unfolding at_most_scrolls_def by (meson le_trans)

lemma scrolls_bind:
  assumes "at_most_scrolls a m" and "\<And>x. at_most_scrolls b (f x)"
  shows "at_most_scrolls (a + b) (bind_io m f)"
  unfolding at_most_scrolls_def
proof
  fix s
  obtain r s1 where ms: "m s = (r, s1)" by (cases "m s")
  from at_most_scrollsD[OF assms(1), of s] ms obtain new1 where
    n1: "snd s1 = snd s @ new1" "length (filter is_scroll new1) \<le> a" by auto
  show "\<exists>new. snd (snd (bind_io m f s)) = snd s @ new \<and> length (filter is_scroll new) \<le> a + b"
  proof (cases r)
    case (Inl e)
    with ms n1 have "snd (snd (bind_io m f s)) = snd s @ new1
        \<and> length (filter is_scroll new1) \<le> a + b"
      by (simp add: bind_io_def)
    then show ?thesis by blast
  next
    case (Inr x)
    from at_most_scrollsD[OF assms(2), of x s1] obtain new2 where
      n2: "snd (snd (f x s1)) = snd s1 @ new2" "length (filter is_scroll new2) \<le> b" by auto
    with ms n1 Inr have "snd (snd (bind_io m f s)) = snd s @ (new1 @ new2)
        \<and> length (filter is_scroll (new1 @ new2)) \<le> a + b"
      by (simp add: bind_io_def)
    then show ?thesis by blast
  qed
qed

lemma scrolls_try:
  assumes "at_most_scrolls a m" and "\<And>e. at_most_scrolls b (h e)"
  shows "at_most_scrolls (a + b) (try_except m h)"
  unfolding at_most_scrolls_def
proof
  fix s
  obtain r s1 where ms: "m s = (r, s1)" by (cases "m s")
  from at_most_scrollsD[OF assms(1), of s] ms obtain new1 where
    n1: "snd s1 = snd s @ new1" "length (filter is_scroll new1) \<le> a" by auto
  show "\<exists>new. snd (snd (try_except m h s)) = snd s @ new \<and> length (filter is_scroll new) \<le> a + b"
  proof (cases r)
    case (Inr x)
    with ms n1 have "snd (snd (try_except m h s)) = snd s @ new1
        \<and> length (filter is_scroll new1) \<le> a + b"
      by (simp add: try_except_def)
    then show ?thesis by blast
  next
    case (Inl e)
    from at_most_scrollsD[OF assms(2), of e s1] obtain new2 where
      n2: "snd (snd (h e s1)) = snd s1 @ new2" "length (filter is_scroll new2) \<le> b" by auto
    with ms n1 Inl have "snd (snd (try_except m h s)) = snd s @ (new1 @ new2)
        \<and> length (filter is_scroll (new1 @ new2)) \<le> a + b"
      by (simp add: try_except_def)
    then show ?thesis by blast
  qed
qed

lemma scrolls_wait: "at_most_scrolls 0 (page_action api (WaitForTimeout t))"
  unfolding page_action_def by (rule scrolls_perform_other) (simp add: is_scroll_def)

lemma scrolls_load_state: "at_most_scrolls 0 (page_action api (WaitForLoadState k t))"
  unfolding page_action_def by (rule scrolls_perform_other) (simp add: is_scroll_def)

lemma scrolls_count: "at_most_scrolls 0 (loc_count api l)"
  unfolding loc_count_def by (rule scrolls_perform_other) (simp add: is_scroll_def)

lemma scrolls_evaluate: "at_most_scrolls (Suc 0) (page_action api (Evaluate j))"
  unfolding page_action_def by (rule scrolls_perform_scroll)

lemma scrolls_scroll_loop:
  "at_most_scrolls k (scroll_loop api pause_ms k scroll_num lastc stab)"
proof (induction k arbitrary: scroll_num lastc stab)
  case 0
  then show ?case by (simp add: scrolls_return)
next
  case (Suc k)
  have tail: "at_most_scrolls k (bind_io w (\<lambda>_. scroll_loop api pause_ms k n' l' s'))"
    if "at_most_scrolls 0 w" for w :: "(unit, 'a) io" and n' l' s'
    using scrolls_bind[OF that Suc.IH] by simp
  have body: "at_most_scrolls (0 + k)
      (let last' = (if c > lastc then c else lastc);
           stable' = (if c > lastc then 0 else stab + 1)
       in if stable' \<ge> 2 \<and> c \<ge> 20 then return_io ()
          else bind_io (if c < 10 \<and> scroll_num \<ge> 3
                        then page_action api (WaitForTimeout 2000) else return_io ())
                 (\<lambda>_. scroll_loop api pause_ms k (Suc scroll_num) last' stable'))" for c :: nat
    unfolding Let_def by (simp add: scrolls_return tail scrolls_wait)
  have "at_most_scrolls (Suc 0 + (0 + (0 + (0 + k))))
     (scroll_loop api pause_ms (Suc k) scroll_num lastc stab)"
    unfolding scroll_loop.simps
    by (intro scrolls_bind scrolls_evaluate scrolls_wait scrolls_count body)
  then show ?case by simp
qed

lemma scrolls_scroll_to_bottom:
  "at_most_scrolls max_scrolls (scroll_to_bottom_enhanced api max_scrolls pause_ms)"
proof -
  have "at_most_scrolls ((0 + 0) + (max_scrolls + 0))
     (scroll_to_bottom_enhanced api max_scrolls pause_ms)"
    unfolding scroll_to_bottom_enhanced_def
    by (intro scrolls_bind scrolls_try scrolls_load_state scrolls_scroll_loop scrolls_count)
  then show ?thesis by simp
qed

subsection \<open>The detector as specified\<close>

lemma stable_run_pos: "(Suc 0 \<le> stable_run h) = no_increase h"
  by (cases h) simp_all

lemma converged_stable_run:
  "converged (c # h) = (2 \<le> stable_run (c # h) \<and> 20 \<le> c)"
  using stable_run_pos[of h] by (auto simp: converged_def)

lemma largest_step: "(if largest h < c then c else largest h) = largest (c # h)"
  by (simp add: max_def)

lemma stable_run_step:
  "(if largest h < c then 0 else stable_run h + 1) = stable_run (c # h)"
  by simp

lemma scroll_loop_detector:
  "scroll_loop api pause_ms k (length h) (largest h) (stable_run h) = detector_loop api pause_ms k h"
proof (induction k arbitrary: h)
  case 0
  show ?case by simp
next
  case (Suc k)
  have body: "(let last' = (if c > largest h then c else largest h);
           stable' = (if c > largest h then 0 else stable_run h + 1)
       in if stable' \<ge> 2 \<and> c \<ge> 20 then return_io ()
          else bind_io (if c < 10 \<and> length h \<ge> 3
                        then page_action api (WaitForTimeout 2000) else return_io ())
                 (\<lambda>_. scroll_loop api pause_ms k (Suc (length h)) last' stable'))
      = (if converged (c # h) then return_io ()
         else bind_io (if c < 10 \<and> 3 \<le> length h
                     then page_action api (WaitForTimeout 2000) else return_io ())
              (\<lambda>_. detector_loop api pause_ms k (c # h)))" for c
  proof -
    have ih: "scroll_loop api pause_ms k (Suc (length h)) (largest (c # h)) (stable_run (c # h))
        = detector_loop api pause_ms k (c # h)"
      using Suc.IH[of "c # h"] by simp
    show ?thesis
      unfolding Let_def largest_step stable_run_step converged_stable_run ih ..
  qed
  show ?case
    unfolding scroll_loop.simps detector_loop.simps body ..
qed

lemma scroll_is_detector:
  "scroll_to_bottom_enhanced api max_scrolls pause_ms =
     bind_io (try_except (page_action api (WaitForLoadState ''networkidle'' 8000))
                (\<lambda>e. page_action api (WaitForLoadState ''domcontentloaded'' 15000))) (\<lambda>_.
     bind_io (detector_loop api pause_ms max_scrolls []) (\<lambda>_.
     loc_count api (Locator asin_selector)))"
  using scroll_loop_detector[of api pause_ms max_scrolls "[]"]
  by (simp add: scroll_to_bottom_enhanced_def)

subsection \<open>Where an exception comes from\<close>

lemma raises_lastD:
  assumes "raises_last api P m"
  shows "\<exists>new. snd (snd (m s)) = snd s @ new
        \<and> (\<forall>e. fst (m s) = Inl e \<longrightarrow>
              (\<exists>before c w. new = before @ [c] \<and> P c \<and> call_raises api c w e (fst (snd (m s)))))"
  using assms unfolding raises_last_def by blast

lemma raises_return: "raises_last api P (return_io x)"
  by (simp add: raises_last_def return_io_def)

lemma raises_action: "P (Act a) \<Longrightarrow> raises_last api P (page_action api a)"
proof -
  assume p: "P (Act a)"
  have "\<exists>new. snd (snd (page_action api a (w, log))) = log @ new
        \<and> (\<forall>e. fst (page_action api a (w, log)) = Inl e \<longrightarrow>
              (\<exists>before c w0. new = before @ [c] \<and> P c
                 \<and> call_raises api c w0 e (fst (snd (page_action api a (w, log))))))" for w log
  proof -
    obtain r w' where f: "run_action api a w = (r, w')" by (cases "run_action api a w")
    have "snd (snd (page_action api a (w, log))) = log @ [Act a]
        \<and> (\<forall>e. fst (page_action api a (w, log)) = Inl e \<longrightarrow>
              ([Act a] = [] @ [Act a] \<and> P (Act a)
                 \<and> call_raises api (Act a) w e (fst (snd (page_action api a (w, log))))))"
      using f p by (simp add: page_action_def perform_def)
    then show ?thesis by blast
  qed
  then show ?thesis by (simp add: raises_last_def)
qed

lemma raises_count: "P (Count l) \<Longrightarrow> raises_last api P (loc_count api l)"
proof -
  assume p: "P (Count l)"
  have "\<exists>new. snd (snd (loc_count api l (w, log))) = log @ new
        \<and> (\<forall>e. fst (loc_count api l (w, log)) = Inl e \<longrightarrow>
              (\<exists>before c w0. new = before @ [c] \<and> P c
                 \<and> call_raises api c w0 e (fst (snd (loc_count api l (w, log))))))" for w log
  proof -
    obtain r w' where f: "run_count api l w = (r, w')" by (cases "run_count api l w")
    have "snd (snd (loc_count api l (w, log))) = log @ [Count l]
        \<and> (\<forall>e. fst (loc_count api l (w, log)) = Inl e \<longrightarrow>
              ([Count l] = [] @ [Count l] \<and> P (Count l)
                 \<and> call_raises api (Count l) w e (fst (snd (loc_count api l (w, log))))))"
      using f p by (simp add: loc_count_def perform_def)
    then show ?thesis by blast
  qed
  then show ?thesis by (simp add: raises_last_def)
qed

lemma raises_bind:
  assumes "raises_last api P m" and "\<And>x. raises_last api P (f x)"
  shows "raises_last api P (bind_io m f)"
  unfolding raises_last_def
proof
  fix s
  obtain r s1 where ms: "m s = (r, s1)" by (cases "m s")
  from raises_lastD[OF assms(1), of s] ms obtain new1 where
    n1: "snd s1 = snd s @ new1"
      "\<forall>e. r = Inl e \<longrightarrow> (\<exists>before c w. new1 = before @ [c] \<and> P c \<and> call_raises api c w e (fst s1))"
    by auto
  show "\<exists>new. snd (snd (bind_io m f s)) = snd s @ new
        \<and> (\<forall>e. fst (bind_io m f s) = Inl e \<longrightarrow>
              (\<exists>before c w. new = before @ [c] \<and> P c
                 \<and> call_raises api c w e (fst (snd (bind_io m f s)))))"
  proof (cases r)
    case (Inl e)
    with ms have b: "bind_io m f s = (Inl e, s1)" by (simp add: bind_io_def)
    from n1 Inl show ?thesis unfolding b by simp
  next
    case (Inr x)
    with ms have b: "bind_io m f s = f x s1" by (simp add: bind_io_def)
    from raises_lastD[OF assms(2), of x s1] obtain new2 where
      n2: "snd (snd (f x s1)) = snd s1 @ new2"
        "\<forall>e. fst (f x s1) = Inl e \<longrightarrow>
           (\<exists>before c w. new2 = before @ [c] \<and> P c \<and> call_raises api c w e (fst (snd (f x s1))))"
      by (elim exE conjE) (rule that)
    have "snd (snd (f x s1)) = snd s @ (new1 @ new2)
        \<and> (\<forall>e. fst (f x s1) = Inl e \<longrightarrow>
              (\<exists>before c w. new1 @ new2 = before @ [c] \<and> P c
                 \<and> call_raises api c w e (fst (snd (f x s1)))))"
    proof (intro conjI allI impI)
      show "snd (snd (f x s1)) = snd s @ (new1 @ new2)" using n1(1) n2(1) by simp
    next
      fix e assume "fst (f x s1) = Inl e"
      with n2(2) obtain before c w where
        "new2 = before @ [c]" "P c" "call_raises api c w e (fst (snd (f x s1)))" by blast
      then have "new1 @ new2 = (new1 @ before) @ [c] \<and> P c
          \<and> call_raises api c w e (fst (snd (f x s1)))" by simp
      then show "\<exists>before c w. new1 @ new2 = before @ [c] \<and> P c
          \<and> call_raises api c w e (fst (snd (f x s1)))" by blast
    qed
    then show ?thesis unfolding b by blast
  qed
qed

lemma raises_try:
  assumes "raises_last api Q m" and "\<And>e. raises_last api P (h e)"
  shows "raises_last api P (try_except m h)"
  unfolding raises_last_def
proof
  fix s
  obtain r s1 where ms: "m s = (r, s1)" by (cases "m s")
  from raises_lastD[OF assms(1), of s] ms obtain new1 where
    n1: "snd s1 = snd s @ new1" by auto
  show "\<exists>new. snd (snd (try_except m h s)) = snd s @ new
        \<and> (\<forall>e. fst (try_except m h s) = Inl e \<longrightarrow>
              (\<exists>before c w. new = before @ [c] \<and> P c
                 \<and> call_raises api c w e (fst (snd (try_except m h s)))))"
  proof (cases r)
    case (Inr x)
    with ms have b: "try_except m h s = (Inr x, s1)" by (simp add: try_except_def)
    from n1 show ?thesis unfolding b by simp
  next
    case (Inl e0)
    with ms have b: "try_except m h s = h e0 s1" by (simp add: try_except_def)
    from raises_lastD[OF assms(2), of e0 s1] obtain new2 where
      n2: "snd (snd (h e0 s1)) = snd s1 @ new2"
        "\<forall>e. fst (h e0 s1) = Inl e \<longrightarrow>
           (\<exists>before c w. new2 = before @ [c] \<and> P c \<and> call_raises api c w e (fst (snd (h e0 s1))))"
      by (elim exE conjE) (rule that)
    have "snd (snd (h e0 s1)) = snd s @ (new1 @ new2)
        \<and> (\<forall>e. fst (h e0 s1) = Inl e \<longrightarrow>
              (\<exists>before c w. new1 @ new2 = before @ [c] \<and> P c
                 \<and> call_raises api c w e (fst (snd (h e0 s1)))))"
    proof (intro conjI allI impI)
      show "snd (snd (h e0 s1)) = snd s @ (new1 @ new2)" using n1 n2(1) by simp
    next
      fix e assume "fst (h e0 s1) = Inl e"
      with n2(2) obtain before c w where
        "new2 = before @ [c]" "P c" "call_raises api c w e (fst (snd (h e0 s1)))" by blast
      then have "new1 @ new2 = (new1 @ before) @ [c] \<and> P c
          \<and> call_raises api c w e (fst (snd (h e0 s1)))" by simp
      then show "\<exists>before c w. new1 @ new2 = before @ [c] \<and> P c
          \<and> call_raises api c w e (fst (snd (h e0 s1)))" by blast
    qed
    then show ?thesis unfolding b by blast
  qed
qed

lemma raises_scroll_loop:
  "raises_last api (scroll_call pause_ms) (scroll_loop api pause_ms k scroll_num lastc stab)"
proof (induction k arbitrary: scroll_num lastc stab)
  case 0
  then show ?case by (simp add: raises_return)
next
  case (Suc k)
  have w2: "raises_last api (scroll_call pause_ms) (page_action api (WaitForTimeout 2000))"
    by (rule raises_action) (simp add: scroll_call_def)
  have tail: "raises_last api (scroll_call pause_ms)
      (bind_io w (\<lambda>_. scroll_loop api pause_ms k n' l' s'))"
    if "raises_last api (scroll_call pause_ms) w" for w :: "(unit, 'a) io" and n' l' s'
    by (intro raises_bind that Suc.IH)
  have body: "raises_last api (scroll_call pause_ms)
      (let last' = (if c > lastc then c else lastc);
           stable' = (if c > lastc then 0 else stab + 1)
       in if stable' \<ge> 2 \<and> c \<ge> 20 then return_io ()
          else bind_io (if c < 10 \<and> scroll_num \<ge> 3
                        then page_action api (WaitForTimeout 2000) else return_io ())
                 (\<lambda>_. scroll_loop api pause_ms k (Suc scroll_num) last' stable'))" for c :: nat
    unfolding Let_def by (simp add: raises_return tail w2)
  show ?case
    unfolding scroll_loop.simps
    by (intro raises_bind raises_action raises_count body) (simp_all add: scroll_call_def)
qed

lemma raises_scroll_to_bottom:
  "raises_last api (scroll_call pause_ms) (scroll_to_bottom_enhanced api max_scrolls pause_ms)"
proof -
  have idle: "raises_last api anything (page_action api (WaitForLoadState ''networkidle'' 8000))"
    by (rule raises_action) (simp add: anything_def)
  show ?thesis
    unfolding scroll_to_bottom_enhanced_def
    by (intro raises_bind raises_try[OF idle] raises_action raises_count raises_scroll_loop)
      (simp_all add: scroll_call_def)
qed

lemma scroll_failure_origin:
  assumes "scroll_to_bottom_enhanced api max_scrolls pause_ms s = (Inl e, s')"
  shows "\<exists>before c w. snd s' = snd s @ before @ [c] \<and> scroll_call pause_ms c
            \<and> call_raises api c w e (fst s')"
  using raises_lastD[OF raises_scroll_to_bottom[where api = api and pause_ms = pause_ms
        and max_scrolls = max_scrolls], of s] assms
  by auto

lemma scroll_success_count:
  assumes "scroll_to_bottom_enhanced api max_scrolls pause_ms s = (Inr n, s')"
  shows "\<exists>s0. loc_count api (Locator asin_selector) s0 = (Inr n, s')"
proof -
  have eq: "scroll_to_bottom_enhanced api max_scrolls pause_ms =
      bind_io (bind_io (try_except (page_action api (WaitForLoadState ''networkidle'' 8000))
                (\<lambda>e. page_action api (WaitForLoadState ''domcontentloaded'' 15000)))
            (\<lambda>_. scroll_loop api pause_ms max_scrolls 0 0 0))
        (\<lambda>_. loc_count api (Locator asin_selector))"
    by (simp only: scroll_to_bottom_enhanced_def bind_io_assoc)
  obtain r s0 where pre: "bind_io (try_except (page_action api (WaitForLoadState ''networkidle'' 8000))
                (\<lambda>e. page_action api (WaitForLoadState ''domcontentloaded'' 15000)))
            (\<lambda>_. scroll_loop api pause_ms max_scrolls 0 0 0) s = (r, s0)"
    by (cases "bind_io (try_except (page_action api (WaitForLoadState ''networkidle'' 8000))
                (\<lambda>e. page_action api (WaitForLoadState ''domcontentloaded'' 15000)))
            (\<lambda>_. scroll_loop api pause_ms max_scrolls 0 0 0) s")
  show ?thesis
  proof (cases r)
    case (Inl e)
    with pre assms show ?thesis unfolding eq by (simp add: bind_io_def)
  next
    case (Inr u)
    with pre assms have "loc_count api (Locator asin_selector) s0 = (Inr n, s')"
      unfolding eq by (simp add: bind_io_def)
    then show ?thesis by blast
  qed
qed

lemma scroll_unguarded_wait:
  assumes "page_action api (WaitForLoadState ''networkidle'' 8000) s = (Inl e0, s0)"
    and "page_action api (WaitForLoadState ''domcontentloaded'' 15000) s0 = (Inl e, s1)"
  shows "scroll_to_bottom_enhanced api max_scrolls pause_ms s = (Inl e, s1)"
  using assms by (simp add: scroll_to_bottom_enhanced_def bind_io_def try_except_def)

section \<open>The sample inputs, evaluated\<close>

lemma validated_item_raw1_again:
  "validated_item raw1_again = [''rank'' \<mapsto> PyStr ''#1'', ''name'' \<mapsto> PyStr ''Wireless Mouse Pro'',
           ''link'' \<mapsto> PyStr ''https://www.amazon.in/dp/B0A?th=1'', ''rating'' \<mapsto> PyStr ''4.5 out of 5 stars'',
           ''price'' \<mapsto> PyStr ''Rs 499'']"
  by (simp add: validated_item_def raw1_again_def raw1_def dict_get_default_def rank_match_here_def
      is_digit_def is_space_def strip_def)

lemma validate_raw1_again: "validate_and_clean_items [raw1_again] = [validated_item raw1_again]"
  by (simp add: validate_and_clean_items_def validated_item_raw1_again dict_get_def)
    (simp add: raw1_again_def raw1_def dict_get_def)

lemma unit_run: "s = ((), snd s)" for s :: "unit run"
  by (cases s) simp

lemma pair_from_fst: "fst p = a \<Longrightarrow> p = (a, snd p)"
  by (cases p) simp

lemma demo_universal_selectors:
  "fst (extract_using_universal_selectors demo_api ((), log)) = Inr [demo_mouse, demo_keyboard]"
  by (simp add: extract_using_universal_selectors_def text_at_def attribute_at_def demo_simps
      BASE_URL_def is_space_def strip_def is_digit_def rating_phrase_def str_lower_def
      lower_char_def demo_mouse_def demo_keyboard_def)

lemma demo_validated:
  "validate_and_clean_items [demo_mouse, demo_keyboard] = [demo_mouse, demo_keyboard]"
  by (simp add: validate_and_clean_items_def validated_item_def dict_get_def dict_get_default_def
      demo_mouse_def demo_keyboard_def rank_match_here_def is_digit_def is_space_def strip_def)

lemma demo_load: "fst (load_category_page demo_api demo_category ((), log)) = Inr 10"
  by (simp add: load_category_page_def demo_simps demo_category_def)

lemma demo_dedup: "deduplicate_products [demo_mouse, demo_keyboard] = [demo_mouse, demo_keyboard]"
  by (simp add: deduplicate_products_def dict_get_default_def demo_mouse_def demo_keyboard_def
      Let_def)

lemma demo_asin_run:
  "asin_method demo_api s = (Inr [demo_raw], snd (asin_method demo_api s))"
proof -
  have "fst (asin_method demo_api ((), snd s)) = Inr [demo_raw]" by (rule demo_asin_method)
  then have "fst (asin_method demo_api s) = Inr [demo_raw]" using unit_run[of s] by simp
  then show ?thesis by (rule pair_from_fst)
qed

lemma demo_universal_run:
  "extract_using_universal_selectors demo_api s
     = (Inr [demo_mouse, demo_keyboard], snd (extract_using_universal_selectors demo_api s))"
proof -
  have "fst (extract_using_universal_selectors demo_api ((), snd s)) = Inr [demo_mouse, demo_keyboard]"
    by (rule demo_universal_selectors)
  then have "fst (extract_using_universal_selectors demo_api s) = Inr [demo_mouse, demo_keyboard]"
    using unit_run[of s] by simp
  then show ?thesis by (rule pair_from_fst)
qed

lemma demo_load_run:
  "load_category_page demo_api demo_category s
     = (Inr 10, snd (load_category_page demo_api demo_category s))"
proof -
  have "fst (load_category_page demo_api demo_category ((), snd s)) = Inr 10" by (rule demo_load)
  then have "fst (load_category_page demo_api demo_category s) = Inr 10"
    using unit_run[of s] by simp
  then show ?thesis by (rule pair_from_fst)
qed

lemma demo_extract_run:
  "extract_products_on_page demo_api s
     = (Inr [demo_mouse, demo_keyboard], snd (extract_products_on_page demo_api s))"
proof -
  define s1 where "s1 = snd (asin_method demo_api s)"
  define s2 where "s2 = snd (extract_using_universal_selectors demo_api s1)"
  have h: "asin_method demo_api s = (Inr [demo_raw], s1)"
    unfolding s1_def by (rule demo_asin_run)
  have u: "extract_using_universal_selectors demo_api s1 = (Inr [demo_mouse, demo_keyboard], s2)"
    unfolding s2_def by (rule demo_universal_run)
  have "extract_products_on_page demo_api s = (Inr [demo_mouse, demo_keyboard], s2)"
    by (simp add: extract_products_on_page_def universal_fallback_def bind_io_run return_io_run
        h u demo_validated)
  then have "fst (extract_products_on_page demo_api s) = Inr [demo_mouse, demo_keyboard]"
    by simp
  then show ?thesis by (rule pair_from_fst)
qed

lemma demo_first_page_run:
  "extract_first_page demo_api demo_category s
     = (Inr (10, [demo_mouse, demo_keyboard]), snd (extract_first_page demo_api demo_category s))"
proof -
  define s1 where "s1 = snd (load_category_page demo_api demo_category s)"
  define s2 where "s2 = snd (extract_products_on_page demo_api s1)"
  have l: "load_category_page demo_api demo_category s = (Inr 10, s1)"
    unfolding s1_def by (rule demo_load_run)
  have e: "extract_products_on_page demo_api s1 = (Inr [demo_mouse, demo_keyboard], s2)"
    unfolding s2_def by (rule demo_extract_run)
  have "extract_first_page demo_api demo_category s = (Inr (10, [demo_mouse, demo_keyboard]), s2)"
    by (simp add: extract_first_page_def bind_io_run return_io_run l e)
  then have "fst (extract_first_page demo_api demo_category s) = Inr (10, [demo_mouse, demo_keyboard])"
    by simp
  then show ?thesis by (rule pair_from_fst)
qed

lemma no_navigation_filter: "list_all not_navigation new \<Longrightarrow> filter navigation_call new = []"
  by (induction new) (simp_all add: not_navigation_def)

lemma demo_try_run:
  "scrape_category_try demo_api demo_category s
     = (Inr (success_result demo_category 10 [demo_mouse, demo_keyboard] []),
        snd (scrape_category_try demo_api demo_category s))"
proof -
  define s1 where "s1 = snd (extract_first_page demo_api demo_category s)"
  have h: "extract_first_page demo_api demo_category s
     = (Inr (10, [demo_mouse, demo_keyboard]), s1)"
    unfolding s1_def by (rule demo_first_page_run)
  have "scrape_category_try demo_api demo_category s
     = (Inr (success_result demo_category 10 [demo_mouse, demo_keyboard] []), s1)"
    by (simp add: scrape_category_try_def extract_second_page_def bind_io_run return_io_run h)
  then have "fst (scrape_category_try demo_api demo_category s)
     = Inr (success_result demo_category 10 [demo_mouse, demo_keyboard] [])"
    by simp
  then show ?thesis by (rule pair_from_fst)
qed

lemma demo_result_items:
  "category_items (success_result demo_category 10 [demo_mouse, demo_keyboard] [])
     = [demo_mouse, demo_keyboard]"
  by (simp add: success_result_def Let_def demo_dedup)

lemmas stalled_simps = run_simps stalled_api_def demo_api_def scroll_loop_numeral selectors_distinct

lemma stalled_try:
  "scrape_category_try stalled_api demo_category ((), []) =
     (Inl (Exception ''Timeout exceeded.''),
      ((), [Act (Goto ''https://www.amazon.in/gp/bestsellers/books'' ''domcontentloaded'' 30000),
            Act (WaitForTimeout 2000),
            Count (Locator asin_selector),
            Act (WaitForLoadState ''networkidle'' 8000),
            Act (WaitForLoadState ''domcontentloaded'' 15000)]))"
  by (simp add: scrape_category_try_def extract_first_page_def load_category_page_def
      extract_products_on_page_def asin_method_def scroll_to_bottom_enhanced_def
      stalled_simps demo_category_def)

lemmas fluctuating_simps = run_simps fluctuating_api_def scroll_loop_numeral

lemma fluctuating_scroll:
  "scroll_to_bottom_enhanced fluctuating_api 8 2000 (0, []) =
     (Inr 27,
      (4, [Act (WaitForLoadState ''networkidle'' 8000),
           Act (Evaluate scroll_script), Act (WaitForTimeout 2000), Count (Locator asin_selector),
           Act (Evaluate scroll_script), Act (WaitForTimeout 2000), Count (Locator asin_selector),
           Act (Evaluate scroll_script), Act (WaitForTimeout 2000), Count (Locator asin_selector),
           Count (Locator asin_selector)]))"
  by (simp add: scroll_to_bottom_enhanced_def fluctuating_simps)

lemma fluctuating_converged: "\<not> converged [30] \<and> \<not> converged [25, 30] \<and> converged [27, 25, 30]"
  by (simp add: converged_def)

lemma stalled_waits:
  "page_action stalled_api (WaitForLoadState ''networkidle'' 8000) ((), []) =
     (Inl (Exception ''Timeout exceeded.''), ((), [Act (WaitForLoadState ''networkidle'' 8000)]))"
  "page_action stalled_api (WaitForLoadState ''domcontentloaded'' 15000)
       ((), [Act (WaitForLoadState ''networkidle'' 8000)]) =
     (Inl (Exception ''Timeout exceeded.''),
      ((), [Act (WaitForLoadState ''networkidle'' 8000),
            Act (WaitForLoadState ''domcontentloaded'' 15000)]))"
  by (simp_all add: stalled_simps)

section \<open>The claims\<close>

text \<open>
  C1 (code defect). \<open>deduplicate_products\<close> is meant to let at most one of the
  candidates with a given stable identifier through. When the identifier has been seen,
  control falls into the link branch, whose set of seen links the identifier branch never
  fills: the second of two identical candidates is emitted again under its link. In
  \<open>scrape_category\<close> the identifier never reaches the deduplication at all, so one
  product listed on both pages under two links survives twice.
\<close>

theorem dedup_keeps_repeated_asin:
  "deduplicate_products [raw1, raw1] = [raw1(''asin'' := None), raw1(''asin'' := None)]
   \<and> dict_get raw1 ''asin'' = PyStr ''B0A''
   \<and> length (deduplicate_products [raw1, raw1]) = 2
   \<and> dict_get raw1_again ''asin'' = PyStr ''B0A''
   \<and> deduplicate_products (validate_and_clean_items [raw1] @ validate_and_clean_items [raw1_again])
       = [validated_item raw1, validated_item raw1_again]"
proof -
  have a: "deduplicate_products [raw1, raw1] = [raw1(''asin'' := None), raw1(''asin'' := None)]"
    by (simp add: deduplicate_products_def raw1_def dict_get_default_def Let_def)
  have b: "dict_get raw1 ''asin'' = PyStr ''B0A''" "dict_get raw1_again ''asin'' = PyStr ''B0A''"
    by (simp_all add: raw1_again_def raw1_def dict_get_def)
  have c: "deduplicate_products [validated_item raw1, validated_item raw1_again]
       = [validated_item raw1, validated_item raw1_again]"
    by (simp add: deduplicate_products_def validated_item_raw1 validated_item_raw1_again
        dict_get_default_def Let_def)
  from a b c show ?thesis by (simp add: validate_raw1 validate_raw1_again)
qed

text \<open>
  C2. Every record that \<open>validate_and_clean_items\<close> emits is the cleaned form of one
  of the input records, its name and its link are non-empty strings, and the cleaned name
  is longer than 10 characters. Records that fail this are absent from the output: the
  name that is emitted is the cleaned name itself, not a repaired one.
\<close>

theorem validate_emits_valid:
  assumes "v \<in> set (validate_and_clean_items items)"
  shows "\<exists>raw n l. raw \<in> set items \<and> v = validated_item raw
           \<and> v ''name'' = Some (PyStr n) \<and> v ''link'' = Some (PyStr l)
           \<and> n = clean_product_name (dict_get_default raw ''name'' (PyStr ''''))
           \<and> n \<noteq> [] \<and> l \<noteq> [] \<and> length n > 10"
proof -
  from assms have "v \<in> set (validated_items items)"
    using unique_by_link_subset by (auto simp: validate_and_clean_items_def)
  from validated_items_sound[OF this] obtain raw where raw: "raw \<in> set items"
    and v: "v = validated_item raw" and t: "truthy (dict_get v ''name'')" "truthy (dict_get v ''link'')"
      "py_len (dict_get v ''name'') > 10" by blast
  from t show ?thesis using raw v
    by (auto simp: dict_get_def validated_item_name validated_item_link)
qed

theorem validate_emits_valid_witness:
  "validated_item raw1 \<in> set (validate_and_clean_items [raw1])
   \<and> (\<exists>raw n l. raw \<in> set [raw1] \<and> validated_item raw1 = validated_item raw
           \<and> validated_item raw1 ''name'' = Some (PyStr n)
           \<and> validated_item raw1 ''link'' = Some (PyStr l)
           \<and> n = clean_product_name (dict_get_default raw ''name'' (PyStr ''''))
           \<and> n \<noteq> [] \<and> l \<noteq> [] \<and> length n > 10)"
proof -
  have h: "validated_item raw1 \<in> set (validate_and_clean_items [raw1])"
    by (simp add: validate_raw1)
  show ?thesis using h validate_emits_valid [OF h] by simp
qed

text \<open>
  C7 (as stated). The claim that all three normalizers are idempotent fails for the two
  that truncate: a cleaned text of 501 characters whose 500th character is the separating
  space is cut to a text that ends in that space, and the second application strips it.
\<close>

theorem truncating_cleaners_not_idempotent:
  "clean_product_name (PyStr (clean_product_name (PyStr (replicate 499 CHR ''a'' @ '' b''))))
      \<noteq> clean_product_name (PyStr (replicate 499 CHR ''a'' @ '' b''))
   \<and> clean_rating (PyStr (clean_rating (PyStr (replicate 99 CHR ''a'' @ '' b''))))
      \<noteq> clean_rating (PyStr (replicate 99 CHR ''a'' @ '' b''))"
proof -
  have "clean_product_name (PyStr (replicate 499 CHR ''a'' @ '' b'')) = replicate 499 CHR ''a'' @ '' ''"
    using trunc_example[of 499] by (simp only: clean_product_name_take) simp
  then have 1: "ends_with_space (clean_product_name (PyStr (replicate 499 CHR ''a'' @ '' b'')))"
    by (simp add: ends_with_space_def)
  have "clean_rating (PyStr (replicate 99 CHR ''a'' @ '' b'')) = replicate 99 CHR ''a'' @ '' ''"
    using trunc_example[of 99] by (simp only: clean_rating_take) simp
  then have 2: "ends_with_space (clean_rating (PyStr (replicate 99 CHR ''a'' @ '' b'')))"
    by (simp add: ends_with_space_def)
  from 1 2 show ?thesis by (simp only: clean_product_name_idem_iff clean_rating_idem_iff) simp
qed

text \<open>
  C7 (amended). \<open>clean_text\<close> is idempotent on every input. \<open>clean_product_name\<close>
  and \<open>clean_rating\<close> map their own result to itself exactly when that result does
  not end in a space, that is, unless the truncation cut the cleaned text right after a
  word separator.
\<close>

theorem cleaners_idempotent_unless_cut_at_space:
  "clean_text (PyStr (clean_text v)) = clean_text v
   \<and> ((clean_product_name (PyStr (clean_product_name v)) = clean_product_name v)
        = (\<not> ends_with_space (clean_product_name v)))
   \<and> ((clean_rating (PyStr (clean_rating v)) = clean_rating v)
        = (\<not> ends_with_space (clean_rating v)))"
  by (simp only: clean_text_idem clean_product_name_idem_iff clean_rating_idem_iff)

theorem cleaners_idempotent_witness:
  "\<not> ends_with_space (clean_product_name (PyStr ''  Foo   bar ''))
   \<and> \<not> ends_with_space (clean_rating (PyStr ''4.5  out of 5 ''))
   \<and> clean_text (PyStr (clean_text (PyStr ''  Foo   bar ''))) = ''Foo bar''
   \<and> clean_product_name (PyStr (clean_product_name (PyStr ''  Foo   bar ''))) = ''Foo bar''
   \<and> clean_rating (PyStr (clean_rating (PyStr ''4.5  out of 5 ''))) = ''4.5 out of 5''"
proof -
  have a: "clean_text (PyStr ''  Foo   bar '') = ''Foo bar''"
    by (simp add: is_space_def strip_def)
  have b: "clean_product_name (PyStr ''  Foo   bar '') = ''Foo bar''"
    by (simp add: is_space_def strip_def)
  have c: "clean_rating (PyStr ''4.5  out of 5 '') = ''4.5 out of 5''"
    by (simp add: is_space_def strip_def)
  have d: "\<not> ends_with_space ''Foo bar''" "\<not> ends_with_space ''4.5 out of 5''"
    by (simp_all add: ends_with_space_def)
  show ?thesis
    using cleaners_idempotent_unless_cut_at_space [of "PyStr ''  Foo   bar ''"]
      cleaners_idempotent_unless_cut_at_space [of "PyStr ''4.5  out of 5 ''"]
    by (simp only: a b c d) simp
qed

text \<open>
  C8. \<open>clean_rank\<close> returns \<^verbatim>\<open>#\<close> followed by the first maximal run of digits of
  its input, whether or not a \<^verbatim>\<open>#\<close> stands before that run, and the empty string when
  the input has no digit (or is \<^verbatim>\<open>None\<close>); the three examples of the specification.
\<close>

theorem clean_rank_first_digit_run:
  "clean_rank (PyStr s) =
     (if filter is_digit s = [] then []
      else CHR ''#'' # takeWhile is_digit (dropWhile (\<lambda>c. \<not> is_digit c) s))
   \<and> clean_rank PyNone = []
   \<and> clean_rank (PyStr ''#1'') = ''#1''
   \<and> clean_rank (PyStr ''Best Sellers Rank #42'') = ''#42''
   \<and> clean_rank (PyStr ''no digits'') = []"
proof -
  have "clean_rank (PyStr s) =
     (if filter is_digit s = [] then []
      else CHR ''#'' # takeWhile is_digit (dropWhile (\<lambda>c. \<not> is_digit c) s))"
    by (cases "s = []") (simp_all add: rank_search_first_run)
  moreover have "clean_rank (PyStr ''#1'') = ''#1''"
    by (simp add: rank_match_here_def is_digit_def)
  moreover have "clean_rank (PyStr ''Best Sellers Rank #42'') = ''#42''"
    by (simp add: rank_match_here_def is_digit_def)
  moreover have "clean_rank (PyStr ''no digits'') = []"
    by (simp add: rank_match_here_def is_digit_def)
  ultimately show ?thesis by simp
qed

theorem clean_rank_witness:
  "clean_rank (PyStr ''Rank 7 of 100'') = ''#7''"
  using clean_rank_first_digit_run [of "''Rank 7 of 100''"] by (simp add: is_digit_def)

text \<open>
  C3. Whatever the page does, the result of \<open>scrape_category\<close> has at most 100
  items and its statistic \<^verbatim>\<open>final_unique_items\<close> is the number of its items; this
  covers the result built after both pages and the one built by the \<^verbatim>\<open>except\<close> branch.
\<close>

theorem category_items_bounded:
  "\<exists>res. fst (scrape_category api category s) = Inr res
     \<and> length (category_items res) \<le> 100
     \<and> extraction_stats res ''final_unique_items'' = Some (StatInt (length (category_items res)))"
proof -
  from scrape_category_cases[of api category s] show ?thesis
  proof
    assume "\<exists>e s1. scrape_category_try api category s = (Inl e, s1)
        \<and> scrape_category api category s = (Inr (failure_result category e), s1)"
    then obtain e s1 where "scrape_category api category s = (Inr (failure_result category e), s1)"
      by blast
    then show ?thesis using failure_result_bounds[of category e] by simp
  next
    assume "\<exists>r s1. scrape_category_try api category s = (Inr r, s1)
        \<and> scrape_category api category s = (Inr r, s1)"
    then obtain r s1 where t: "scrape_category_try api category s = (Inr r, s1)"
      and sc: "scrape_category api category s = (Inr r, s1)" by blast
    from scrape_try_result[OF t] obtain n fb sb where "r = success_result category n fb sb"
      by blast
    then show ?thesis using sc success_result_bounds[of category n fb sb] by simp
  qed
qed

theorem category_items_witness:
  "fst (scrape_category demo_api demo_category ((), []))
     = Inr (success_result demo_category 10 [demo_mouse, demo_keyboard] [])
   \<and> category_items (success_result demo_category 10 [demo_mouse, demo_keyboard] [])
       = [demo_mouse, demo_keyboard]
   \<and> extraction_stats (success_result demo_category 10 [demo_mouse, demo_keyboard] [])
        ''final_unique_items'' = Some (StatInt 2)"
proof -
  have r: "fst (scrape_category demo_api demo_category ((), []))
     = Inr (success_result demo_category 10 [demo_mouse, demo_keyboard] [])"
  proof -
    define s' where "s' = snd (scrape_category_try demo_api demo_category ((), []))"
    have "scrape_category_try demo_api demo_category ((), [])
       = (Inr (success_result demo_category 10 [demo_mouse, demo_keyboard] []), s')"
      unfolding s'_def by (rule demo_try_run)
    then show ?thesis by (simp add: scrape_category_def try_except_run)
  qed
  from category_items_bounded [of demo_api demo_category "((), [])"] r
  have "extraction_stats (success_result demo_category 10 [demo_mouse, demo_keyboard] [])
        ''final_unique_items''
      = Some (StatInt (length (category_items
          (success_result demo_category 10 [demo_mouse, demo_keyboard] []))))"
    by auto
  then show ?thesis using r by (simp add: demo_result_items)
qed

text \<open>
  C4. Take any run of \<open>scrape_category\<close> and look at it when the extraction of page 1
  has ended. Up to that point the only navigation performed is the load of the category
  page. If that extraction failed, the run ends there with the failure result. If it
  returned fewer than 15 items, the run ends there too: no further operation is performed
  on the page and the result reports \<^verbatim>\<open>page2_items\<close> as 0. If it returned 15 items or
  more, the next operation is the click of the first navigation tactic.
\<close>

theorem page2_attempted_iff_15:
  assumes "extract_first_page api category s = (r, s1)"
  shows "(\<exists>new. snd s1 = snd s @ Act (Goto (category_url category) ''domcontentloaded'' 30000) # new
            \<and> list_all not_navigation new)
       \<and> (case r of
            Inl e \<Rightarrow> scrape_category api category s = (Inr (failure_result category e), s1)
          | Inr (initial_asin_count, first_batch) \<Rightarrow>
              if length first_batch < 15
              then scrape_category api category s
                     = (Inr (success_result category initial_asin_count first_batch []), s1)
                   \<and> extraction_stats (success_result category initial_asin_count first_batch [])
                       ''page2_items'' = Some (StatInt 0)
              else (\<exists>rest. snd (snd (scrape_category api category s))
                      = snd s1 @ Act (Click (ByText ''Next page'') 5000) # rest))"
proof -
  from opens_thenD[OF opens_extract_first_page, of api category s] assms
  have first: "\<exists>new. snd s1 = snd s @ Act (Goto (category_url category) ''domcontentloaded'' 30000) # new
            \<and> list_all not_navigation new"
    by simp
  show ?thesis
  proof (cases r)
    case (Inl e)
    with assms have "scrape_category_try api category s = (Inl e, s1)"
      by (simp add: scrape_category_try_def bind_io_def)
    then have "scrape_category api category s = (Inr (failure_result category e), s1)"
      by (simp add: scrape_category_def try_except_def return_io_def)
    with first Inl show ?thesis by simp
  next
    case (Inr x)
    obtain initial_asin_count first_batch where x: "x = (initial_asin_count, first_batch)"
      by (cases x)
    from assms Inr x have run: "scrape_category_try api category s =
        bind_io (extract_second_page api first_batch)
          (\<lambda>second_batch. return_io (success_result category initial_asin_count first_batch second_batch)) s1"
      by (simp add: scrape_category_try_def bind_io_def)
    show ?thesis
    proof (cases "length first_batch < 15")
      case True
      then have "scrape_category_try api category s
          = (Inr (success_result category initial_asin_count first_batch []), s1)"
        by (simp add: run extract_second_page_def bind_io_def return_io_def)
      then have "scrape_category api category s
          = (Inr (success_result category initial_asin_count first_batch []), s1)"
        unfolding scrape_category_def by (rule try_except_Inr)
      moreover have "extraction_stats (success_result category initial_asin_count first_batch [])
                     ''page2_items'' = Some (StatInt 0)"
        by (simp add: success_result_def Let_def)
      ultimately show ?thesis using first True Inr x by simp
    next
      case False
      have "opens_then (Act (Click (ByText ''Next page'') 5000)) anything
         (bind_io (extract_second_page api first_batch)
          (\<lambda>second_batch. return_io (success_result category initial_asin_count first_batch second_batch)))"
        using False unfolding extract_second_page_def
        by (simp only: if_True if_False not_less)
          (intro opens_bind opens_navigate emits_if emits_bind emits_return emits_page_action
            emits_any_extract_products anything_holds)
      from opens_thenD[OF this, of s1] obtain rest where
        "snd (snd (scrape_category_try api category s))
           = snd s1 @ Act (Click (ByText ''Next page'') 5000) # rest"
        by (auto simp: run)
      then have "snd (snd (scrape_category api category s))
           = snd s1 @ Act (Click (ByText ''Next page'') 5000) # rest"
        by (simp add: scrape_category_def snd_try_return)
      with first False Inr x show ?thesis by auto
    qed
  qed
qed

theorem page2_witness:
  "extract_first_page demo_api demo_category ((), [])
     = (Inr (10, [demo_mouse, demo_keyboard]), snd (extract_first_page demo_api demo_category ((), [])))
   \<and> length [demo_mouse, demo_keyboard] < 15
   \<and> scrape_category demo_api demo_category ((), [])
       = (Inr (success_result demo_category 10 [demo_mouse, demo_keyboard] []),
          snd (extract_first_page demo_api demo_category ((), [])))
   \<and> extraction_stats (success_result demo_category 10 [demo_mouse, demo_keyboard] [])
        ''page2_items'' = Some (StatInt 0)
   \<and> filter navigation_call (snd (snd (scrape_category demo_api demo_category ((), []))))
       = [Act (Goto ''https://www.amazon.in/gp/bestsellers/books'' ''domcontentloaded'' 30000)]"
proof -
  define s1 where "s1 = snd (extract_first_page demo_api demo_category ((), []))"
  have h: "extract_first_page demo_api demo_category ((), [])
     = (Inr (10, [demo_mouse, demo_keyboard]), s1)"
    unfolding s1_def by (rule demo_first_page_run)
  note t = page2_attempted_iff_15 [OF h]
  from t obtain new where
    n: "snd s1 = snd ((), []) @ Act (Goto (category_url demo_category) ''domcontentloaded'' 30000) # new"
    and q: "list_all not_navigation new"
    by blast
  from t have "scrape_category demo_api demo_category ((), [])
                 = (Inr (success_result demo_category 10 [demo_mouse, demo_keyboard] []), s1)
               \<and> extraction_stats (success_result demo_category 10 [demo_mouse, demo_keyboard] [])
                   ''page2_items'' = Some (StatInt 0)"
    by simp
  then have r: "scrape_category demo_api demo_category ((), [])
                 = (Inr (success_result demo_category 10 [demo_mouse, demo_keyboard] []), s1)"
    and p: "extraction_stats (success_result demo_category 10 [demo_mouse, demo_keyboard] [])
                   ''page2_items'' = Some (StatInt 0)"
    by simp_all
  have f: "filter navigation_call (snd (snd (scrape_category demo_api demo_category ((), []))))
       = [Act (Goto ''https://www.amazon.in/gp/bestsellers/books'' ''domcontentloaded'' 30000)]"
  proof -
    have "snd (snd (scrape_category demo_api demo_category ((), []))) = snd s1"
      by (simp only: r snd_conv)
    also have "\<dots> = Act (Goto (category_url demo_category) ''domcontentloaded'' 30000) # new"
      using n by simp
    finally show ?thesis
      by (simp add: no_navigation_filter[OF q] demo_category_def)
  qed
  have l: "length [demo_mouse, demo_keyboard] < 15" by simp
  from h r p f l show ?thesis unfolding s1_def by blast
qed

text \<open>
  C5. Take any run of \<open>extract_products_on_page\<close> and look at it when the scroll and
  the container method have ended. The fallback extractor, which opens by counting the
  product links of the whole page, is invoked exactly when they returned fewer than 15
  items; its result replaces those items only when it is strictly longer; with 15 items
  or more the run ends right after the container method, on its items. A failure of the
  scroll or of the container method ends the run without the fallback.
\<close>

theorem fallback_exactly_when_insufficient:
  assumes "asin_method api s = (r, s1)"
  shows "(\<exists>new. snd (snd (extract_products_on_page api s)) = snd s @ new
            \<and> (Count (Locator product_link_selector) \<in> set new)
                = (case r of Inl e \<Rightarrow> False | Inr items \<Rightarrow> length items < 15))
       \<and> (case r of
            Inl e \<Rightarrow> extract_products_on_page api s = (Inl e, s1)
          | Inr items \<Rightarrow>
              if length items < 15
              then (case extract_using_universal_selectors api s1 of
                      (Inl e, s2) \<Rightarrow> extract_products_on_page api s = (Inl e, s2)
                    | (Inr fallback_items, s2) \<Rightarrow>
                        extract_products_on_page api s =
                          (Inr (validate_and_clean_items
                                  (if length fallback_items > length items
                                   then fallback_items else items)), s2))
              else extract_products_on_page api s = (Inr (validate_and_clean_items items), s1))"
proof -
  from emitsD[OF emits_asin_method[OF quiet_before_fallback], of api s] assms
  obtain new1 where n1: "snd s1 = snd s @ new1" and b1: "list_all before_fallback new1"
    by auto
  from b1 have notin: "Count (Locator product_link_selector) \<notin> set new1"
    by (auto simp: list_all_iff before_fallback_def)
  show ?thesis
  proof (cases r)
    case (Inl e)
    with assms have "extract_products_on_page api s = (Inl e, s1)"
      by (simp add: extract_products_on_page_def bind_io_def)
    with n1 notin Inl show ?thesis by auto
  next
    case (Inr items)
    with assms have run: "extract_products_on_page api s =
        bind_io (universal_fallback api items)
          (\<lambda>items'. return_io (validate_and_clean_items items')) s1"
      by (simp add: extract_products_on_page_def bind_io_def)
    show ?thesis
    proof (cases "length items < 15")
      case False
      then have res: "extract_products_on_page api s = (Inr (validate_and_clean_items items), s1)"
        by (simp add: run universal_fallback_def bind_io_def return_io_def)
      with n1 notin False Inr show ?thesis by auto
    next
      case True
      obtain u s2 where u: "extract_using_universal_selectors api s1 = (u, s2)"
        by (cases "extract_using_universal_selectors api s1")
      from opens_thenD[OF opens_universal_selectors, of api s1] u obtain rest where
        n2: "snd s2 = snd s1 @ Count (Locator product_link_selector) # rest" by auto
      have res: "(case u of
             Inl e \<Rightarrow> extract_products_on_page api s = (Inl e, s2)
           | Inr fallback_items \<Rightarrow>
               extract_products_on_page api s =
                 (Inr (validate_and_clean_items
                         (if length fallback_items > length items
                          then fallback_items else items)), s2))"
        using True u by (cases u) (simp_all add: run universal_fallback_def bind_io_def return_io_def)
      then have "snd (extract_products_on_page api s) = s2" by (cases u) simp_all
      with n1 n2 have "snd (snd (extract_products_on_page api s))
          = snd s @ (new1 @ Count (Locator product_link_selector) # rest)
        \<and> (Count (Locator product_link_selector)
              \<in> set (new1 @ Count (Locator product_link_selector) # rest)) = (length items < 15)"
        using True by simp
      then have "\<exists>new. snd (snd (extract_products_on_page api s)) = snd s @ new
              \<and> (Count (Locator product_link_selector) \<in> set new) = (length items < 15)"
        by blast
      with res True u Inr show ?thesis by simp
    qed
  qed
qed

theorem fallback_witness:
  "asin_method demo_api ((), []) = (Inr [demo_raw], snd (asin_method demo_api ((), [])))
   \<and> fst (extract_using_universal_selectors demo_api (snd (asin_method demo_api ((), []))))
       = Inr [demo_mouse, demo_keyboard]
   \<and> fst (extract_products_on_page demo_api ((), []))
       = Inr (validate_and_clean_items [demo_mouse, demo_keyboard])
   \<and> Count (Locator product_link_selector)
       \<in> set (snd (snd (extract_products_on_page demo_api ((), []))))"
proof -
  define s1 where "s1 = snd (asin_method demo_api ((), []))"
  define s2 where "s2 = snd (extract_using_universal_selectors demo_api s1)"
  have h: "asin_method demo_api ((), []) = (Inr [demo_raw], s1)"
    unfolding s1_def by (rule demo_asin_run)
  have u: "extract_using_universal_selectors demo_api s1 = (Inr [demo_mouse, demo_keyboard], s2)"
    unfolding s2_def by (rule demo_universal_run)
  note t = fallback_exactly_when_insufficient [OF h]
  from t have "\<exists>new. snd (snd (extract_products_on_page demo_api ((), []))) = snd ((), []) @ new
            \<and> (Count (Locator product_link_selector) \<in> set new) = (length [demo_raw] < 15)"
    by simp
  then have a: "Count (Locator product_link_selector)
       \<in> set (snd (snd (extract_products_on_page demo_api ((), []))))"
    by auto
  from t have "case extract_using_universal_selectors demo_api s1 of
                  (Inl e, s2) \<Rightarrow> extract_products_on_page demo_api ((), []) = (Inl e, s2)
                | (Inr fallback_items, s2) \<Rightarrow>
                    extract_products_on_page demo_api ((), []) =
                      (Inr (validate_and_clean_items
                              (if length fallback_items > length [demo_raw]
                               then fallback_items else [demo_raw])), s2)"
    by simp
  then have "extract_products_on_page demo_api ((), []) =
            (Inr (validate_and_clean_items [demo_mouse, demo_keyboard]), s2)"
    by (simp add: u)
  then have b: "fst (extract_products_on_page demo_api ((), []))
       = Inr (validate_and_clean_items [demo_mouse, demo_keyboard])"
    by simp
  have c: "fst (extract_using_universal_selectors demo_api s1) = Inr [demo_mouse, demo_keyboard]"
    using u by simp
  from a b c h show ?thesis unfolding s1_def by blast
qed

text \<open>
  C6. \<open>scrape_category\<close> ends with a result for every page, category and starting
  state: an exception raised anywhere in its \<^verbatim>\<open>try\<close> block is turned into the result
  with no items and the exception's text under \<^verbatim>\<open>error\<close>.
\<close>

theorem scrape_category_always_returns:
  "(\<exists>res s'. scrape_category api category s = (Inr res, s'))
   \<and> (\<forall>e s1. scrape_category_try api category s = (Inl e, s1) \<longrightarrow>
         scrape_category api category s = (Inr (failure_result category e), s1)
         \<and> category_items (failure_result category e) = []
         \<and> extraction_stats (failure_result category e) ''error'' = Some (StatStr (str_of_exn e)))"
proof -
  have "\<exists>res s'. scrape_category api category s = (Inr res, s')"
    using scrape_category_cases[of api category s] by blast
  moreover have "\<forall>e s1. scrape_category_try api category s = (Inl e, s1) \<longrightarrow>
         scrape_category api category s = (Inr (failure_result category e), s1)
         \<and> category_items (failure_result category e) = []
         \<and> extraction_stats (failure_result category e) ''error'' = Some (StatStr (str_of_exn e))"
    by (simp add: scrape_category_def try_except_def return_io_def failure_result_def)
  ultimately show ?thesis by blast
qed

theorem scrape_category_witness:
  "scrape_category_try stalled_api demo_category ((), []) =
     (Inl (Exception ''Timeout exceeded.''),
      ((), [Act (Goto ''https://www.amazon.in/gp/bestsellers/books'' ''domcontentloaded'' 30000),
            Act (WaitForTimeout 2000),
            Count (Locator asin_selector),
            Act (WaitForLoadState ''networkidle'' 8000),
            Act (WaitForLoadState ''domcontentloaded'' 15000)]))
   \<and> fst (scrape_category stalled_api demo_category ((), []))
       = Inr \<lparr>category_link = ''https://www.amazon.in/gp/bestsellers/books'',
              category_items = [],
              extraction_stats =
                [''error'' \<mapsto> StatStr ''Timeout exceeded.'',
                 ''page1_items'' \<mapsto> StatInt 0,
                 ''page2_items'' \<mapsto> StatInt 0,
                 ''total_before_dedup'' \<mapsto> StatInt 0,
                 ''final_unique_items'' \<mapsto> StatInt 0]\<rparr>"
proof -
  note t = scrape_category_always_returns [of stalled_api demo_category "((), [])"]
  from t have "\<forall>e s1. scrape_category_try stalled_api demo_category ((), []) = (Inl e, s1) \<longrightarrow>
         scrape_category stalled_api demo_category ((), []) = (Inr (failure_result demo_category e), s1)
         \<and> category_items (failure_result demo_category e) = []
         \<and> extraction_stats (failure_result demo_category e) ''error'' = Some (StatStr (str_of_exn e))"
    by (rule conjunct2)
  then have "scrape_category stalled_api demo_category ((), []) =
      (Inr (failure_result demo_category (Exception ''Timeout exceeded.'')),
       ((), [Act (Goto ''https://www.amazon.in/gp/bestsellers/books'' ''domcontentloaded'' 30000),
            Act (WaitForTimeout 2000),
            Count (Locator asin_selector),
            Act (WaitForLoadState ''networkidle'' 8000),
            Act (WaitForLoadState ''domcontentloaded'' 15000)]))"
    using stalled_try by (elim allE impE conjE) assumption
  then have "fst (scrape_category stalled_api demo_category ((), []))
      = Inr (failure_result demo_category (Exception ''Timeout exceeded.''))"
    by simp
  then show ?thesis using stalled_try by (simp add: failure_result_def demo_category_def)
qed

text \<open>
  C9 (as stated). The detector does fail: the wait for the DOM-ready signal stands in the
  handler of the first wait, outside any \<^verbatim>\<open>try\<close>, and neither the loop nor the final
  measurement is guarded. On a page whose load-state waits time out, the call ends with
  that exception.
\<close>

theorem scroll_fails_when_waits_time_out:
  "fst (scroll_to_bottom_enhanced stalled_api 8 2000 ((), []))
     = Inl (Exception ''Timeout exceeded.'')"
  by (simp add: scroll_to_bottom_enhanced_def stalled_simps)

text \<open>
  C9 (amended). \<open>scroll_to_bottom_enhanced\<close> performs at most \<open>max_scrolls\<close> scrolls,
  and it is the detector of the specification: after the guarded wait for network idle
  (replaced by a DOM-ready wait when it fails) it runs \<open>detector_loop\<close> from an empty
  history, that is, it scrolls, pauses and measures until the two latest measurements
  both fail to exceed the largest count measured before them and the latest count is at
  least 20, and then measures once more. A call that returns, returns the count measured
  by its last operation. A call that ends with an exception ends with the one raised by
  the last operation it performed, and that operation is the DOM-ready wait, a scroll, a
  pause or a measurement: the call returns whenever none of these fails. When the wait for
  network idle and the DOM-ready wait that replaces it both fail, the call ends with the
  exception of the latter.
\<close>

theorem scroll_is_convergence_detector:
  "(\<exists>new. snd (snd (scroll_to_bottom_enhanced api max_scrolls pause_ms s)) = snd s @ new
        \<and> length (filter is_scroll new) \<le> max_scrolls)
   \<and> scroll_to_bottom_enhanced api max_scrolls pause_ms =
       bind_io (try_except (page_action api (WaitForLoadState ''networkidle'' 8000))
                  (\<lambda>e. page_action api (WaitForLoadState ''domcontentloaded'' 15000))) (\<lambda>_.
       bind_io (detector_loop api pause_ms max_scrolls []) (\<lambda>_.
       loc_count api (Locator asin_selector)))
   \<and> (\<forall>n s'. scroll_to_bottom_enhanced api max_scrolls pause_ms s = (Inr n, s')
        \<longrightarrow> (\<exists>s0. loc_count api (Locator asin_selector) s0 = (Inr n, s')))
   \<and> (\<forall>e s'. scroll_to_bottom_enhanced api max_scrolls pause_ms s = (Inl e, s')
        \<longrightarrow> (\<exists>before c w. snd s' = snd s @ before @ [c] \<and> scroll_call pause_ms c
               \<and> call_raises api c w e (fst s')))
   \<and> (\<forall>e0 s0 e s1.
          page_action api (WaitForLoadState ''networkidle'' 8000) s = (Inl e0, s0)
          \<and> page_action api (WaitForLoadState ''domcontentloaded'' 15000) s0 = (Inl e, s1)
        \<longrightarrow> scroll_to_bottom_enhanced api max_scrolls pause_ms s = (Inl e, s1))"
proof (intro conjI allI impI)
  show "\<exists>new. snd (snd (scroll_to_bottom_enhanced api max_scrolls pause_ms s)) = snd s @ new
        \<and> length (filter is_scroll new) \<le> max_scrolls"
    by (rule at_most_scrollsD[OF scrolls_scroll_to_bottom])
next
  show "scroll_to_bottom_enhanced api max_scrolls pause_ms =
       bind_io (try_except (page_action api (WaitForLoadState ''networkidle'' 8000))
                  (\<lambda>e. page_action api (WaitForLoadState ''domcontentloaded'' 15000))) (\<lambda>_.
       bind_io (detector_loop api pause_ms max_scrolls []) (\<lambda>_.
       loc_count api (Locator asin_selector)))"
    by (rule scroll_is_detector)
next
  fix n s'
  assume "scroll_to_bottom_enhanced api max_scrolls pause_ms s = (Inr n, s')"
  then show "\<exists>s0. loc_count api (Locator asin_selector) s0 = (Inr n, s')"
    by (rule scroll_success_count)
next
  fix e s'
  assume "scroll_to_bottom_enhanced api max_scrolls pause_ms s = (Inl e, s')"
  then show "\<exists>before c w. snd s' = snd s @ before @ [c] \<and> scroll_call pause_ms c
               \<and> call_raises api c w e (fst s')"
    by (rule scroll_failure_origin)
next
  fix e0 s0 e s1
  assume "page_action api (WaitForLoadState ''networkidle'' 8000) s = (Inl e0, s0)
          \<and> page_action api (WaitForLoadState ''domcontentloaded'' 15000) s0 = (Inl e, s1)"
  then show "scroll_to_bottom_enhanced api max_scrolls pause_ms s = (Inl e, s1)"
    using scroll_unguarded_wait[of api s e0 s0 e s1 max_scrolls pause_ms] by blast
qed

theorem scroll_witness:
  "scroll_to_bottom_enhanced fluctuating_api 8 2000 (0, []) =
     (Inr 27,
      (4, [Act (WaitForLoadState ''networkidle'' 8000),
           Act (Evaluate scroll_script), Act (WaitForTimeout 2000), Count (Locator asin_selector),
           Act (Evaluate scroll_script), Act (WaitForTimeout 2000), Count (Locator asin_selector),
           Act (Evaluate scroll_script), Act (WaitForTimeout 2000), Count (Locator asin_selector),
           Count (Locator asin_selector)]))
   \<and> length (filter is_scroll (snd (snd (scroll_to_bottom_enhanced fluctuating_api 8 2000 (0, []))))) \<le> 8
   \<and> length (filter is_scroll (snd (snd (scroll_to_bottom_enhanced fluctuating_api 8 2000 (0, []))))) = 3
   \<and> \<not> converged [30] \<and> \<not> converged [25, 30] \<and> converged [27, 25, 30]
   \<and> bind_io (try_except (page_action fluctuating_api (WaitForLoadState ''networkidle'' 8000))
                (\<lambda>e. page_action fluctuating_api (WaitForLoadState ''domcontentloaded'' 15000))) (\<lambda>_.
      bind_io (detector_loop fluctuating_api 2000 8 []) (\<lambda>_.
      loc_count fluctuating_api (Locator asin_selector))) (0, []) =
     (Inr 27,
      (4, [Act (WaitForLoadState ''networkidle'' 8000),
           Act (Evaluate scroll_script), Act (WaitForTimeout 2000), Count (Locator asin_selector),
           Act (Evaluate scroll_script), Act (WaitForTimeout 2000), Count (Locator asin_selector),
           Act (Evaluate scroll_script), Act (WaitForTimeout 2000), Count (Locator asin_selector),
           Count (Locator asin_selector)]))
   \<and> (\<exists>s0. loc_count fluctuating_api (Locator asin_selector) s0 =
     (Inr 27,
      (4, [Act (WaitForLoadState ''networkidle'' 8000),
           Act (Evaluate scroll_script), Act (WaitForTimeout 2000), Count (Locator asin_selector),
           Act (Evaluate scroll_script), Act (WaitForTimeout 2000), Count (Locator asin_selector),
           Act (Evaluate scroll_script), Act (WaitForTimeout 2000), Count (Locator asin_selector),
           Count (Locator asin_selector)])))
   \<and> page_action stalled_api (WaitForLoadState ''networkidle'' 8000) ((), []) =
        (Inl (Exception ''Timeout exceeded.''), ((), [Act (WaitForLoadState ''networkidle'' 8000)]))
   \<and> page_action stalled_api (WaitForLoadState ''domcontentloaded'' 15000)
          ((), [Act (WaitForLoadState ''networkidle'' 8000)]) =
        (Inl (Exception ''Timeout exceeded.''),
         ((), [Act (WaitForLoadState ''networkidle'' 8000),
               Act (WaitForLoadState ''domcontentloaded'' 15000)]))
   \<and> scroll_to_bottom_enhanced stalled_api 8 2000 ((), []) =
        (Inl (Exception ''Timeout exceeded.''),
         ((), [Act (WaitForLoadState ''networkidle'' 8000),
               Act (WaitForLoadState ''domcontentloaded'' 15000)]))
   \<and> (\<exists>before c w. [Act (WaitForLoadState ''networkidle'' 8000),
                      Act (WaitForLoadState ''domcontentloaded'' 15000)] = before @ [c]
          \<and> scroll_call 2000 c
          \<and> call_raises stalled_api c w (Exception ''Timeout exceeded.'') ())"
proof -
  note t = scroll_is_convergence_detector [of fluctuating_api 8 2000 "(0, [])"]
  note u = scroll_is_convergence_detector [of stalled_api 8 2000 "((), [])"]
  from t obtain new where
    "snd (snd (scroll_to_bottom_enhanced fluctuating_api 8 2000 (0, []))) = snd (0::nat, []) @ new"
    "length (filter is_scroll new) \<le> 8"
    by blast
  then have a: "length (filter is_scroll
      (snd (snd (scroll_to_bottom_enhanced fluctuating_api 8 2000 (0, []))))) \<le> 8"
    by simp
  have b: "length (filter is_scroll
      (snd (snd (scroll_to_bottom_enhanced fluctuating_api 8 2000 (0, []))))) = 3"
    by (simp add: fluctuating_scroll is_scroll_def)
  from t have "scroll_to_bottom_enhanced fluctuating_api 8 2000 =
       bind_io (try_except (page_action fluctuating_api (WaitForLoadState ''networkidle'' 8000))
                  (\<lambda>e. page_action fluctuating_api (WaitForLoadState ''domcontentloaded'' 15000))) (\<lambda>_.
       bind_io (detector_loop fluctuating_api 2000 8 []) (\<lambda>_.
       loc_count fluctuating_api (Locator asin_selector)))"
    by (elim conjE)
  from fluctuating_scroll[unfolded this]
  have c: "bind_io (try_except (page_action fluctuating_api (WaitForLoadState ''networkidle'' 8000))
                (\<lambda>e. page_action fluctuating_api (WaitForLoadState ''domcontentloaded'' 15000))) (\<lambda>_.
      bind_io (detector_loop fluctuating_api 2000 8 []) (\<lambda>_.
      loc_count fluctuating_api (Locator asin_selector))) (0, []) =
     (Inr 27,
      (4, [Act (WaitForLoadState ''networkidle'' 8000),
           Act (Evaluate scroll_script), Act (WaitForTimeout 2000), Count (Locator asin_selector),
           Act (Evaluate scroll_script), Act (WaitForTimeout 2000), Count (Locator asin_selector),
           Act (Evaluate scroll_script), Act (WaitForTimeout 2000), Count (Locator asin_selector),
           Count (Locator asin_selector)]))" .
  from t have "scroll_to_bottom_enhanced fluctuating_api 8 2000 (0, []) =
     (Inr 27,
      (4, [Act (WaitForLoadState ''networkidle'' 8000),
           Act (Evaluate scroll_script), Act (WaitForTimeout 2000), Count (Locator asin_selector),
           Act (Evaluate scroll_script), Act (WaitForTimeout 2000), Count (Locator asin_selector),
           Act (Evaluate scroll_script), Act (WaitForTimeout 2000), Count (Locator asin_selector),
           Count (Locator asin_selector)]))
     \<longrightarrow> (\<exists>s0. loc_count fluctuating_api (Locator asin_selector) s0 =
     (Inr 27,
      (4, [Act (WaitForLoadState ''networkidle'' 8000),
           Act (Evaluate scroll_script), Act (WaitForTimeout 2000), Count (Locator asin_selector),
           Act (Evaluate scroll_script), Act (WaitForTimeout 2000), Count (Locator asin_selector),
           Act (Evaluate scroll_script), Act (WaitForTimeout 2000), Count (Locator asin_selector),
           Count (Locator asin_selector)])))"
    by blast
  with fluctuating_scroll
  have d: "\<exists>s0. loc_count fluctuating_api (Locator asin_selector) s0 =
     (Inr 27,
      (4, [Act (WaitForLoadState ''networkidle'' 8000),
           Act (Evaluate scroll_script), Act (WaitForTimeout 2000), Count (Locator asin_selector),
           Act (Evaluate scroll_script), Act (WaitForTimeout 2000), Count (Locator asin_selector),
           Act (Evaluate scroll_script), Act (WaitForTimeout 2000), Count (Locator asin_selector),
           Count (Locator asin_selector)]))"
    by (rule rev_mp)
  from u
  have "page_action stalled_api (WaitForLoadState ''networkidle'' 8000) ((), [])
          = (Inl (Exception ''Timeout exceeded.''), ((), [Act (WaitForLoadState ''networkidle'' 8000)]))
        \<and> page_action stalled_api (WaitForLoadState ''domcontentloaded'' 15000)
            ((), [Act (WaitForLoadState ''networkidle'' 8000)])
          = (Inl (Exception ''Timeout exceeded.''),
             ((), [Act (WaitForLoadState ''networkidle'' 8000),
                   Act (WaitForLoadState ''domcontentloaded'' 15000)]))
      \<longrightarrow> scroll_to_bottom_enhanced stalled_api 8 2000 ((), []) =
        (Inl (Exception ''Timeout exceeded.''),
         ((), [Act (WaitForLoadState ''networkidle'' 8000),
               Act (WaitForLoadState ''domcontentloaded'' 15000)]))"
    by blast
  then have w3: "scroll_to_bottom_enhanced stalled_api 8 2000 ((), []) =
        (Inl (Exception ''Timeout exceeded.''),
         ((), [Act (WaitForLoadState ''networkidle'' 8000),
               Act (WaitForLoadState ''domcontentloaded'' 15000)]))"
    using stalled_waits by simp
  from u
  have "scroll_to_bottom_enhanced stalled_api 8 2000 ((), []) =
        (Inl (Exception ''Timeout exceeded.''),
         ((), [Act (WaitForLoadState ''networkidle'' 8000),
               Act (WaitForLoadState ''domcontentloaded'' 15000)]))
      \<longrightarrow> (\<exists>before c w. snd ((), [Act (WaitForLoadState ''networkidle'' 8000),
               Act (WaitForLoadState ''domcontentloaded'' 15000)]) = snd ((), []) @ before @ [c]
            \<and> scroll_call 2000 c
            \<and> call_raises stalled_api c w (Exception ''Timeout exceeded.'')
                 (fst ((), [Act (WaitForLoadState ''networkidle'' 8000),
               Act (WaitForLoadState ''domcontentloaded'' 15000)])))"
    by blast
  with w3
  have "\<exists>before c w. snd ((), [Act (WaitForLoadState ''networkidle'' 8000),
               Act (WaitForLoadState ''domcontentloaded'' 15000)]) = snd ((), []) @ before @ [c]
            \<and> scroll_call 2000 c
            \<and> call_raises stalled_api c w (Exception ''Timeout exceeded.'')
                 (fst ((), [Act (WaitForLoadState ''networkidle'' 8000),
               Act (WaitForLoadState ''domcontentloaded'' 15000)]))"
    by (rule rev_mp)
  then have f: "\<exists>before c w. [Act (WaitForLoadState ''networkidle'' 8000),
                      Act (WaitForLoadState ''domcontentloaded'' 15000)] = before @ [c]
          \<and> scroll_call 2000 c
          \<and> call_raises stalled_api c w (Exception ''Timeout exceeded.'') ()"
    by simp
  from fluctuating_converged have g: "\<not> converged [30]" "\<not> converged [25, 30]"
    "converged [27, 25, 30]" by simp_all
  from fluctuating_scroll a b g c d stalled_waits w3 f show ?thesis by (intro conjI)
qed

text \<open>
  C10. Every record that \<open>validate_and_clean_items\<close> emits has exactly the five keys
  rank, name, link, rating and price, hence no \<^verbatim>\<open>asin\<close>. Both batches that
  \<open>scrape_category\<close> merges and hands to \<open>deduplicate_products\<close> come out of that
  validation, so for each of their records the lookup \<^verbatim>\<open>item.get("asin", "")\<close> of the
  deduplication yields the empty string.
\<close>

theorem validated_items_carry_no_asin:
  "(\<forall>v \<in> set (validate_and_clean_items items). dom v = item_fields \<and> v ''asin'' = None)
   \<and> (\<forall>r s'. scrape_category_try api category s = (Inr r, s') \<longrightarrow>
        (\<exists>n first_batch second_batch.
            r = success_result category n first_batch second_batch
          \<and> category_items r = take 100 (deduplicate_products (first_batch @ second_batch))
          \<and> (\<forall>it \<in> set (first_batch @ second_batch).
                dom it = item_fields \<and> dict_get_default it ''asin'' (PyStr '''') = PyStr '''')))"
proof -
  have 1: "\<forall>v \<in> set (validate_and_clean_items items). dom v = item_fields \<and> v ''asin'' = None"
    using validated_output_fields by blast
  have 2: "\<exists>n first_batch second_batch.
            r = success_result category n first_batch second_batch
          \<and> category_items r = take 100 (deduplicate_products (first_batch @ second_batch))
          \<and> (\<forall>it \<in> set (first_batch @ second_batch).
                dom it = item_fields \<and> dict_get_default it ''asin'' (PyStr '''') = PyStr '''')"
    if t: "scrape_category_try api category s = (Inr r, s')" for r s'
  proof -
    from scrape_try_result[OF t] obtain n fb sb p1 p2 where r: "r = success_result category n fb sb"
      and fb: "fb = validate_and_clean_items p1" and sb: "sb = validate_and_clean_items p2"
      by blast
    have "\<forall>it \<in> set (fb @ sb). dom it = item_fields \<and> dict_get_default it ''asin'' (PyStr '''') = PyStr ''''"
    proof
      fix it assume "it \<in> set (fb @ sb)"
      then have "it \<in> set (validate_and_clean_items p1) \<or> it \<in> set (validate_and_clean_items p2)"
        by (simp add: fb sb)
      then have "dom it = item_fields \<and> it ''asin'' = None"
        using validated_output_fields by blast
      then show "dom it = item_fields \<and> dict_get_default it ''asin'' (PyStr []) = PyStr []"
        by (simp add: dict_get_default_def)
    qed
    moreover have "category_items r = take 100 (deduplicate_products (fb @ sb))"
      by (simp add: r success_result_def Let_def)
    ultimately show ?thesis using r by blast
  qed
  from 1 2 show ?thesis by blast
qed

theorem validated_items_witness:
  "validated_item raw1 \<in> set (validate_and_clean_items [raw1])
   \<and> dict_get raw1 ''asin'' = PyStr ''B0A''
   \<and> dom (validated_item raw1) = item_fields \<and> validated_item raw1 ''asin'' = None
   \<and> fst (scrape_category_try demo_api demo_category ((), []))
       = Inr (success_result demo_category 10 [demo_mouse, demo_keyboard] [])
   \<and> (\<exists>n first_batch second_batch.
          success_result demo_category 10 [demo_mouse, demo_keyboard] []
            = success_result demo_category n first_batch second_batch
        \<and> category_items (success_result demo_category 10 [demo_mouse, demo_keyboard] [])
            = take 100 (deduplicate_products (first_batch @ second_batch))
        \<and> list_all (\<lambda>it. dom it = item_fields
                           \<and> dict_get_default it ''asin'' (PyStr '''') = PyStr '''')
            (first_batch @ second_batch))"
proof -
  define s' where "s' = snd (scrape_category_try demo_api demo_category ((), []))"
  have h: "scrape_category_try demo_api demo_category ((), [])
     = (Inr (success_result demo_category 10 [demo_mouse, demo_keyboard] []), s')"
    unfolding s'_def by (rule demo_try_run)
  have m: "validated_item raw1 \<in> set (validate_and_clean_items [raw1])"
    by (simp add: validate_raw1)
  note t = validated_items_carry_no_asin [of "[raw1]" demo_api demo_category "((), [])"]
  from t have "\<forall>v \<in> set (validate_and_clean_items [raw1]). dom v = item_fields \<and> v ''asin'' = None"
    by (rule conjunct1)
  then have a: "dom (validated_item raw1) = item_fields \<and> validated_item raw1 ''asin'' = None"
    using m by (rule bspec)
  from t have "\<forall>r s'. scrape_category_try demo_api demo_category ((), []) = (Inr r, s') \<longrightarrow>
        (\<exists>n first_batch second_batch.
            r = success_result demo_category n first_batch second_batch
          \<and> category_items r = take 100 (deduplicate_products (first_batch @ second_batch))
          \<and> (\<forall>it \<in> set (first_batch @ second_batch).
                dom it = item_fields \<and> dict_get_default it ''asin'' (PyStr []) = PyStr []))"
    by (rule conjunct2)
  then have "\<exists>n first_batch second_batch.
            success_result demo_category 10 [demo_mouse, demo_keyboard] []
              = success_result demo_category n first_batch second_batch
          \<and> category_items (success_result demo_category 10 [demo_mouse, demo_keyboard] [])
              = take 100 (deduplicate_products (first_batch @ second_batch))
          \<and> (\<forall>it \<in> set (first_batch @ second_batch).
                dom it = item_fields \<and> dict_get_default it ''asin'' (PyStr []) = PyStr [])"
    using h by (elim allE impE) assumption
  then have b: "\<exists>n first_batch second_batch.
          success_result demo_category 10 [demo_mouse, demo_keyboard] []
            = success_result demo_category n first_batch second_batch
        \<and> category_items (success_result demo_category 10 [demo_mouse, demo_keyboard] [])
            = take 100 (deduplicate_products (first_batch @ second_batch))
        \<and> list_all (\<lambda>it. dom it = item_fields
                           \<and> dict_get_default it ''asin'' (PyStr []) = PyStr [])
            (first_batch @ second_batch)"
    by (simp only: list_all_iff)
  have c: "dict_get raw1 ''asin'' = PyStr ''B0A''"
    by (simp add: raw1_def dict_get_def)
  have d: "fst (scrape_category_try demo_api demo_category ((), []))
       = Inr (success_result demo_category 10 [demo_mouse, demo_keyboard] [])"
    using h by simp
  from m a b c d show ?thesis by (intro conjI) simp_all
qed

end
